theory Spec2Isabelle
  imports Complex_Main "HOL-Library.Sublist" "HOL-Library.Product_Lexorder" "HOL-Library.Multiset"
begin

section \<open>Field inference engine of the PDF to AcroForm converter\<close>

text \<open>
  A shallow embedding of \<^verbatim>\<open>converter_core.py\<close> (class \<^verbatim>\<open>PDFConverter\<close>).

  Conventions of the model.
  \<^item> A Python \<^verbatim>\<open>str\<close> is a list of Unicode code points (\<open>ustr\<close>), so that
    \<^verbatim>\<open>len\<close> and slicing count code points as Python does; \<open>U\<close> embeds an ASCII
    literal.
  \<^item> Coordinates, which are Python floats, are real numbers: rounding is not modelled.
    Scores of the fuzzy matcher are quotients of two lengths and are compared exactly.
  \<^item> What the external libraries return (the page's text blocks, the glyph search, the
    local OCR engine, the remote OCR call) is data of the page or an argument.
  \<^item> \<^verbatim>\<open>str.lower\<close> is modelled on the ASCII letters, \<^verbatim>\<open>\d\<close> on the ASCII digits;
    other code points are left as they are.
\<close>

subsection \<open>Python strings\<close>

type_synonym ustr = "nat list"

definition U :: "string \<Rightarrow> ustr" where
  "U s = map of_char s"

text \<open>\<^verbatim>\<open>str.isspace\<close> of one character; also the class \<^verbatim>\<open>\s\<close> of \<^verbatim>\<open>re\<close> on \<^verbatim>\<open>str\<close>.\<close>

definition py_isspace :: "nat \<Rightarrow> bool" where
  "py_isspace c \<longleftrightarrow>
     (9 \<le> c \<and> c \<le> 13) \<or> (28 \<le> c \<and> c \<le> 32) \<or> c = 133 \<or> c = 160 \<or> c = 5760 \<or>
     (8192 \<le> c \<and> c \<le> 8202) \<or> c = 8232 \<or> c = 8233 \<or> c = 8239 \<or> c = 8287 \<or> c = 12288"

definition py_lstrip :: "ustr \<Rightarrow> ustr" where
  "py_lstrip s = dropWhile py_isspace s"

definition py_rstrip :: "ustr \<Rightarrow> ustr" where
  "py_rstrip s = rev (dropWhile py_isspace (rev s))"

text \<open>\<^verbatim>\<open>s.strip()\<close>\<close>

definition py_strip :: "ustr \<Rightarrow> ustr" where
  "py_strip s = py_rstrip (py_lstrip s)"

text \<open>\<^verbatim>\<open>s.rstrip(chars)\<close>\<close>

definition py_rstrip_chars :: "ustr \<Rightarrow> ustr \<Rightarrow> ustr" where
  "py_rstrip_chars chars s = rev (dropWhile (\<lambda>c. c \<in> set chars) (rev s))"

definition lower_cp :: "nat \<Rightarrow> nat" where
  "lower_cp c = (if 65 \<le> c \<and> c \<le> 90 then c + 32 else c)"

text \<open>\<^verbatim>\<open>s.lower()\<close>\<close>

definition py_lower :: "ustr \<Rightarrow> ustr" where
  "py_lower s = map lower_cp s"

text \<open>\<^verbatim>\<open>sub in s\<close>\<close>

definition py_in :: "ustr \<Rightarrow> ustr \<Rightarrow> bool" where
  "py_in sub s = sublist sub s"

text \<open>\<^verbatim>\<open>s.split()\<close>: the maximal runs of non-whitespace characters.\<close>

fun split_ws_acc :: "ustr \<Rightarrow> ustr \<Rightarrow> ustr list" where
  "split_ws_acc cur [] = (if cur = [] then [] else [cur])"
| "split_ws_acc cur (c # cs) =
     (if py_isspace c then (if cur = [] then split_ws_acc [] cs else cur # split_ws_acc [] cs)
      else split_ws_acc (cur @ [c]) cs)"

definition py_split :: "ustr \<Rightarrow> ustr list" where
  "py_split s = split_ws_acc [] s"

text \<open>
  \<^verbatim>\<open>s.split(sep)\<close> for a non-empty separator: the pieces between the non-overlapping
  occurrences of \<open>sep\<close>, found from the left. Every call of the program passes a
  non-empty literal (Python raises \<^verbatim>\<open>ValueError\<close> on an empty one).
\<close>

fun split_sep_acc :: "ustr \<Rightarrow> ustr \<Rightarrow> ustr \<Rightarrow> ustr list" where
  "split_sep_acc sep cur [] = [cur]"
| "split_sep_acc sep cur (c # cs) =
     (if sep \<noteq> [] \<and> prefix sep (c # cs)
      then cur # split_sep_acc sep [] (drop (length sep - 1) cs)
      else split_sep_acc sep (cur @ [c]) cs)"

definition py_split_sep :: "ustr \<Rightarrow> ustr \<Rightarrow> ustr list" where
  "py_split_sep sep s = split_sep_acc sep [] s"

text \<open>\<^verbatim>\<open>s.replace(a, b)\<close> for one-character strings \<open>a\<close> and \<open>b\<close>.\<close>

definition py_replace1 :: "nat \<Rightarrow> nat \<Rightarrow> ustr \<Rightarrow> ustr" where
  "py_replace1 a b s = map (\<lambda>c. if c = a then b else c) s"

text \<open>\<^verbatim>\<open>re.sub(r'\s+', ' ', s)\<close>: every maximal run of whitespace becomes one space.\<close>

function collapse_ws :: "ustr \<Rightarrow> ustr" where
  "collapse_ws [] = []"
| "collapse_ws (c # cs) =
     (if py_isspace c then 32 # collapse_ws (dropWhile py_isspace cs)
      else c # collapse_ws cs)"
  by pat_completeness auto
termination
  by (relation "measure length") (auto simp: length_dropWhile_le less_Suc_eq_le)

subsection \<open>Regular expressions of the program\<close>

text \<open>
  The patterns of the program are sequences of character classes, each taken once,
  optionally, or repeated (greedily or lazily). \<open>rx_match\<close> is the backtracking
  matcher of \<^verbatim>\<open>re\<close> on such a pattern, anchored at the start of its input: it
  returns the text matched by each item and the unread rest, for the first way of
  matching in the order in which \<^verbatim>\<open>re\<close> tries them.
\<close>

datatype quant = Once | Opt | GStar | GPlus | LPlus

type_synonym rx_item = "(nat \<Rightarrow> bool) \<times> quant"

text \<open>Greedy repetition: take one more character first, give it back when the rest fails.\<close>

fun greedy_rep :: "(nat \<Rightarrow> bool) \<Rightarrow> (ustr \<Rightarrow> ustr \<Rightarrow> 'r option) \<Rightarrow> ustr \<Rightarrow> ustr \<Rightarrow> 'r option" where
  "greedy_rep cls k acc [] = k acc []"
| "greedy_rep cls k acc (c # cs) =
     (if cls c
      then (case greedy_rep cls k (acc @ [c]) cs of
              Some r \<Rightarrow> Some r
            | None \<Rightarrow> k acc (c # cs))
      else k acc (c # cs))"

text \<open>Lazy repetition: try the rest first, take one more character when it fails.\<close>

fun lazy_rep :: "(nat \<Rightarrow> bool) \<Rightarrow> (ustr \<Rightarrow> ustr \<Rightarrow> 'r option) \<Rightarrow> ustr \<Rightarrow> ustr \<Rightarrow> 'r option" where
  "lazy_rep cls k acc [] = k acc []"
| "lazy_rep cls k acc (c # cs) =
     (case k acc (c # cs) of
        Some r \<Rightarrow> Some r
      | None \<Rightarrow> (if cls c then lazy_rep cls k (acc @ [c]) cs else None))"

definition rx_item_match ::
  "rx_item \<Rightarrow> (ustr \<Rightarrow> ustr \<Rightarrow> 'r option) \<Rightarrow> ustr \<Rightarrow> 'r option" where
  "rx_item_match it k s =
     (case it of
        (cls, Once) \<Rightarrow> (case s of [] \<Rightarrow> None | c # cs \<Rightarrow> if cls c then k [c] cs else None)
      | (cls, Opt) \<Rightarrow>
          (case s of
             [] \<Rightarrow> k [] []
           | c # cs \<Rightarrow>
               if cls c then (case k [c] cs of Some r \<Rightarrow> Some r | None \<Rightarrow> k [] (c # cs))
               else k [] (c # cs))
      | (cls, GStar) \<Rightarrow> greedy_rep cls k [] s
      | (cls, GPlus) \<Rightarrow>
          (case s of [] \<Rightarrow> None | c # cs \<Rightarrow> if cls c then greedy_rep cls k [c] cs else None)
      | (cls, LPlus) \<Rightarrow>
          (case s of [] \<Rightarrow> None | c # cs \<Rightarrow> if cls c then lazy_rep cls k [c] cs else None))"

primrec rx_match :: "rx_item list \<Rightarrow> ustr \<Rightarrow> (ustr list \<times> ustr) option" where
  "rx_match [] s = Some ([], s)"
| "rx_match (it # its) s =
     rx_item_match it
       (\<lambda>seg rest. map_option (\<lambda>(segs, r). (seg # segs, r)) (rx_match its rest)) s"

text \<open>
  \<^verbatim>\<open>re.finditer\<close>: the non-overlapping matches from the left, each as the list of
  the texts its items matched. After a match the scan goes on where the match ended
  (one character further when the match was empty).
\<close>

function rx_finditer :: "rx_item list \<Rightarrow> ustr \<Rightarrow> ustr list list" where
  "rx_finditer pat [] = (case rx_match pat [] of Some (segs, _) \<Rightarrow> [segs] | None \<Rightarrow> [])"
| "rx_finditer pat (c # cs) =
     (case rx_match pat (c # cs) of
        Some (segs, rest) \<Rightarrow>
          segs # (if length rest < length (c # cs) then rx_finditer pat rest
                  else rx_finditer pat cs)
      | None \<Rightarrow> rx_finditer pat cs)"
  by pat_completeness auto
termination
  by (relation "measure (\<lambda>(pat, s). length s)") auto

subsection \<open>Data model\<close>

text \<open>\<^verbatim>\<open>fitz.Rect(x0, y0, x1, y1)\<close> with its \<^verbatim>\<open>width\<close>, \<^verbatim>\<open>height\<close> and \<^verbatim>\<open>intersects\<close>.\<close>

record rect =
  x0 :: real
  y0 :: real
  x1 :: real
  y1 :: real

definition Rect :: "real \<Rightarrow> real \<Rightarrow> real \<Rightarrow> real \<Rightarrow> rect" where
  "Rect a b c d = \<lparr>x0 = a, y0 = b, x1 = c, y1 = d\<rparr>"

definition width :: "rect \<Rightarrow> real" where
  "width r = x1 r - x0 r"

definition height :: "rect \<Rightarrow> real" where
  "height r = y1 r - y0 r"

definition is_empty :: "rect \<Rightarrow> bool" where
  "is_empty r \<longleftrightarrow> x0 r \<ge> x1 r \<or> y0 r \<ge> y1 r"

text \<open>
  The intersection test of the document library: both rectangles are non-empty and so
  is their common part.
\<close>

definition intersects :: "rect \<Rightarrow> rect \<Rightarrow> bool" where
  "intersects r s \<longleftrightarrow>
     \<not> is_empty r \<and> \<not> is_empty s \<and>
     \<not> is_empty (Rect (max (x0 r) (x0 s)) (max (y0 r) (y0 s)) (min (x1 r) (x1 s)) (min (y1 r) (y1 s)))"

datatype kind = Checkbox | Text

text \<open>A placed field, \<^verbatim>\<open>{"type": ..., "rect": ...}\<close>.\<close>

record field =
  ftype :: kind
  frect :: rect

text \<open>An unplaced candidate, \<^verbatim>\<open>{"type": ..., "label": ...}\<close>.\<close>

record field_info =
  fi_type :: kind
  fi_label :: ustr

text \<open>A measured text position, \<^verbatim>\<open>{"text": ..., "rect": ..., "conf": ...}\<close>.\<close>

record text_position =
  tp_text :: ustr
  tp_rect :: rect
  tp_conf :: real

record span =
  span_text :: ustr

record text_line =
  line_spans :: "span list"
  line_bbox :: rect

record block =
  block_type :: int
  block_lines :: "text_line list"

type_synonym quad = "(real \<times> real) \<times> (real \<times> real) \<times> (real \<times> real) \<times> (real \<times> real)"

text \<open>
  A page, as the program reads it through the document library and the local OCR
  engine: \<open>page_blocks\<close> is \<^verbatim>\<open>page.get_text("dict")["blocks"]\<close>, \<open>search_for\<close> is
  \<^verbatim>\<open>page.search_for\<close>, \<open>rect_width\<close> and \<open>rect_height\<close> are those of \<^verbatim>\<open>page.rect\<close>,
  \<open>img_width\<close> and \<open>img_height\<close> the size of the page rendered at 150 dpi, and
  \<open>readtext\<close> what the OCR reader returns on that image.
\<close>

record page =
  page_blocks :: "block list"
  search_for :: "ustr \<Rightarrow> rect list"
  rect_width :: real
  rect_height :: real
  img_width :: nat
  img_height :: nat
  readtext :: "(quad \<times> ustr \<times> real) list"

text \<open>A page of the remote OCR response.\<close>

record mistral_page =
  mp_index :: int
  mp_markdown :: ustr

datatype error = IndexError

definition CHECKBOX_CHARS :: "ustr list" where
  "CHECKBOX_CHARS = [[9633], [9744], [9745], [9746], [9634], [9723], [9711], [9632]]"

definition CHECKBOX_ENCODED :: "ustr list" where
  "CHECKBOX_ENCODED =
     [[915, 255, 233], [915, 255, 237], [915, 251, 237], [915, 251, 225], [915, 255, 201]]"

definition get_page_text_blocks :: "page \<Rightarrow> block list" where
  "get_page_text_blocks pg = filter (\<lambda>b. block_type b = 0) (page_blocks pg)"

text \<open>\<^verbatim>\<open>_ocr_page_positions\<close>: the OCR boxes, rescaled from pixels to page units.\<close>

definition ocr_page_positions :: "page \<Rightarrow> text_position list" where
  "ocr_page_positions pg =
     (let scale_x = rect_width pg / real (img_width pg);
          scale_y = rect_height pg / real (img_height pg)
      in map (\<lambda>(bbox, text, conf).
                case bbox of (p0, p1, p2, p3) \<Rightarrow>
                  \<lparr>tp_text = text,
                   tp_rect = Rect (fst p0 * scale_x) (snd p0 * scale_y)
                                  (fst p2 * scale_x) (snd p2 * scale_y),
                   tp_conf = conf\<rparr>)
             (readtext pg))"

subsection \<open>Markdown field extractor\<close>

definition ALL_CB :: "ustr list" where
  "ALL_CB = CHECKBOX_CHARS @ CHECKBOX_ENCODED"

text \<open>
  One round of the inner loop over \<^verbatim>\<open>other_cb\<close>:
  \<^verbatim>\<open>if other_cb in option: option = option.split(other_cb)[0].strip()\<close>.
\<close>

definition cut_option :: "ustr \<Rightarrow> ustr \<Rightarrow> ustr" where
  "cut_option option other_cb =
     (if py_in other_cb option then py_strip (py_split_sep other_cb option ! 0) else option)"

text \<open>The option text of one part of the line, before the length filter.\<close>

definition clean_option :: "ustr \<Rightarrow> ustr" where
  "clean_option part = py_strip (collapse_ws (foldl cut_option (py_strip part) ALL_CB))"

text \<open>The length filter, and the candidate kept (its label cut to 30 characters).\<close>

definition option_candidate :: "ustr \<Rightarrow> field_info list" where
  "option_candidate part =
     (let option = clean_option part
      in if option \<noteq> [] \<and> length option > 1 \<and> length option < 60
         then [\<lparr>fi_type = Checkbox, fi_label = take 30 option\<rparr>]
         else [])"

text \<open>The candidates that one glyph \<open>cb\<close> contributes for a line.\<close>

definition checkbox_options :: "ustr \<Rightarrow> ustr \<Rightarrow> field_info list" where
  "checkbox_options line cb =
     (if py_in cb line
      then concat (map option_candidate (drop 1 (py_split_sep cb line)))
      else [])"

definition line_checkboxes :: "ustr \<Rightarrow> field_info list" where
  "line_checkboxes line = concat (map (checkbox_options line) ALL_CB)"

text \<open>The class \<^verbatim>\<open>[A-Za-z\s/\'()\[\]#*\d.]\<close>.\<close>

definition md_label_class :: "nat \<Rightarrow> bool" where
  "md_label_class c \<longleftrightarrow>
     (65 \<le> c \<and> c \<le> 90) \<or> (97 \<le> c \<and> c \<le> 122) \<or> py_isspace c \<or>
     c \<in> {47, 39, 40, 41, 91, 93, 35, 42, 46} \<or> (48 \<le> c \<and> c \<le> 57)"

text \<open>The pattern \<^verbatim>\<open>([A-Za-z\s/\'()\[\]#*\d.]+?)\*?\s*:\<close>.\<close>

definition md_label_pattern :: "rx_item list" where
  "md_label_pattern =
     [(md_label_class, LPlus), (\<lambda>c. c = 42, Opt), (py_isspace, GStar), (\<lambda>c. c = 58, Once)]"

definition skip_keywords :: "ustr list" where
  "skip_keywords =
     map U [''NOTE:'', ''---'', ''http'', ''sfhp.org'', ''1('', ''Methods:'', ''Services:'',
            ''values.'', ''below:'', ''service.'']"

text \<open>The filter on one match of the pattern, \<open>segs\<close> being the texts of its items.\<close>

definition label_candidate :: "ustr list \<Rightarrow> field_info list" where
  "label_candidate segs =
     (let label = py_strip (concat segs)
      in if length label < 40 \<and> \<not> list_ex (\<lambda>sk. py_in sk label) skip_keywords
         then [\<lparr>fi_type = Text, fi_label = label\<rparr>]
         else [])"

definition line_labels :: "ustr \<Rightarrow> field_info list" where
  "line_labels line = concat (map label_candidate (rx_finditer md_label_pattern line))"

text \<open>One round of the loop over the lines: first the checkboxes, then the labels.\<close>

definition line_fields :: "ustr \<Rightarrow> field_info list" where
  "line_fields l =
     (let line = py_strip l
      in if line = [] \<or> prefix (U ''---'') line then []
         else line_checkboxes line @ line_labels line)"

text \<open>\<^verbatim>\<open>_extract_form_fields_from_markdown\<close>\<close>

definition extract_form_fields_from_markdown :: "ustr \<Rightarrow> field_info list" where
  "extract_form_fields_from_markdown markdown_text =
     concat (map line_fields (py_split_sep [10] (py_replace1 124 10 markdown_text)))"

subsection \<open>Fuzzy position matcher\<close>

definition label_clean_of :: "ustr \<Rightarrow> ustr" where
  "label_clean_of label_text = py_lower (py_strip (py_rstrip_chars (U '':*'') label_text))"

definition ocr_clean_of :: "text_position \<Rightarrow> ustr" where
  "ocr_clean_of tp = py_strip (py_lower (tp_text tp))"

text \<open>
  One round of the loop of \<^verbatim>\<open>_find_label_position\<close>; the state is
  \<^verbatim>\<open>(best_match, best_score)\<close>.
\<close>

definition flp_step ::
  "ustr \<Rightarrow> nat set \<Rightarrow> (nat \<times> text_position) option \<times> real \<Rightarrow> nat \<times> text_position
     \<Rightarrow> (nat \<times> text_position) option \<times> real" where
  "flp_step label_clean used_positions st itp =
     (case st of (best_match, best_score) \<Rightarrow>
      case itp of (i, tp) \<Rightarrow>
        if i \<in> used_positions then (best_match, best_score)
        else
          let ocr_clean = ocr_clean_of tp;
              st1 = (if py_in label_clean ocr_clean \<or> py_in ocr_clean label_clean
                     then let score = real (length label_clean) / real (max (length ocr_clean) 1)
                          in if score > best_score then (Some (i, tp), score)
                             else (best_match, best_score)
                     else (best_match, best_score));
              label_words = set (py_split label_clean);
              ocr_words = set (py_split ocr_clean);
              common = label_words \<inter> ocr_words
          in if card common \<ge> 1 \<and> card label_words > 0
             then let score = real (card common) / real (card label_words)
                  in if score > snd st1 then (Some (i, tp), score) else st1
             else st1)"

text \<open>\<^verbatim>\<open>_find_label_position\<close>\<close>

definition find_label_position ::
  "ustr \<Rightarrow> text_position list \<Rightarrow> nat set \<Rightarrow> (nat \<times> text_position) option" where
  "find_label_position label_text ocr_positions used_positions =
     (let label_clean = label_clean_of label_text
      in if length label_clean < 2 then None
         else
           case foldl (flp_step label_clean used_positions) (None, 0) (enumerate 0 ocr_positions)
           of (best_match, best_score) \<Rightarrow>
             if best_match \<noteq> None \<and> best_score > 3 / 10 then best_match else None)"

subsection \<open>OCR field synthesizer\<close>

text \<open>
  The scan of \<^verbatim>\<open>_detect_fields_ocr\<close> for the next text on the same line, which
  bounds the right edge of a text field.
\<close>

definition limit_step :: "nat \<Rightarrow> text_position \<Rightarrow> real \<Rightarrow> nat \<times> text_position \<Rightarrow> real" where
  "limit_step idx tp field_x1 jo =
     (case jo of (j, other) \<Rightarrow>
        if j \<noteq> idx \<and> \<bar>y0 (tp_rect other) - y0 (tp_rect tp)\<bar> < 5
           \<and> x0 (tp_rect other) > x1 (tp_rect tp) + 5
        then min field_x1 (x0 (tp_rect other) - 2)
        else field_x1)"

text \<open>
  The text branch after a match: the rectangle of the field, or nothing when the guard
  \<^verbatim>\<open>field_x1 - field_x0 > 15\<close> fails.
\<close>

definition text_field_of ::
  "real \<Rightarrow> text_position list \<Rightarrow> nat \<Rightarrow> text_position \<Rightarrow> field list" where
  "text_field_of page_width ocr_positions idx tp =
     (let field_x0 = x1 (tp_rect tp) + 2;
          field_x1 = foldl (limit_step idx tp) (page_width - 20) (enumerate 0 ocr_positions);
          field_x1 = max (field_x0 + 20) (min field_x1 (field_x0 + 200))
      in if field_x1 - field_x0 > 15
         then [\<lparr>ftype = Text, frect = Rect field_x0 (y0 (tp_rect tp)) field_x1 (y1 (tp_rect tp))\<rparr>]
         else [])"

definition checkbox_field_of :: "text_position \<Rightarrow> field" where
  "checkbox_field_of tp =
     \<lparr>ftype = Checkbox,
      frect = Rect (x0 (tp_rect tp) - 12) (y0 (tp_rect tp)) (x0 (tp_rect tp) - 1) (y1 (tp_rect tp))\<rparr>"

text \<open>
  One round of the loop over \<^verbatim>\<open>form_fields\<close>; the state is
  \<^verbatim>\<open>(fields, used_positions)\<close>.
\<close>

definition ocr_step ::
  "real \<Rightarrow> text_position list \<Rightarrow> field list \<times> nat set \<Rightarrow> field_info \<Rightarrow> field list \<times> nat set" where
  "ocr_step page_width ocr_positions st fi =
     (case st of (flds, used_positions) \<Rightarrow>
        (case find_label_position (fi_label fi) ocr_positions used_positions of
           None \<Rightarrow> (flds, used_positions)
         | Some (idx, tp) \<Rightarrow>
             (case fi_type fi of
                Checkbox \<Rightarrow> (flds @ [checkbox_field_of tp], insert idx used_positions)
              | Text \<Rightarrow>
                  (flds @ text_field_of page_width ocr_positions idx tp,
                   insert idx used_positions))))"

definition ocr_loop ::
  "real \<Rightarrow> text_position list \<Rightarrow> field_info list \<Rightarrow> field list \<times> nat set" where
  "ocr_loop page_width ocr_positions form_fields =
     foldl (ocr_step page_width ocr_positions) ([], {}) form_fields"

text \<open>\<^verbatim>\<open>_detect_fields_ocr\<close>\<close>

definition detect_fields_ocr :: "page \<Rightarrow> ustr \<Rightarrow> field list" where
  "detect_fields_ocr pg page_markdown =
     fst (ocr_loop (rect_width pg) (ocr_page_positions pg)
            (extract_form_fields_from_markdown page_markdown))"

subsection \<open>Native text strategies\<close>

text \<open>\<^verbatim>\<open>_find_checkbox_locations\<close>\<close>

definition find_checkbox_locations :: "page \<Rightarrow> rect list" where
  "find_checkbox_locations pg = concat (map (search_for pg) (CHECKBOX_CHARS @ CHECKBOX_ENCODED))"

text \<open>One round of the merging loop of \<^verbatim>\<open>_find_underscore_fields\<close>.\<close>

definition merge_step :: "rect list \<Rightarrow> rect \<Rightarrow> rect list" where
  "merge_step merged inst =
     (if merged \<noteq> [] \<and> \<bar>y0 inst - y0 (last merged)\<bar> < 3 \<and> x0 inst < x1 (last merged) + 5
      then merged[length merged - 1 :=
             Rect (min (x0 (last merged)) (x0 inst)) (min (y0 (last merged)) (y0 inst))
                  (max (x1 (last merged)) (x1 inst)) (max (y1 (last merged)) (y1 inst))]
      else merged @ [inst])"

definition merge_runs :: "rect list \<Rightarrow> rect list" where
  "merge_runs instances = foldl merge_step [] (sort_key (\<lambda>r. (y0 r, x0 r)) instances)"

definition underscore_field :: "rect \<Rightarrow> field" where
  "underscore_field m = \<lparr>ftype = Text, frect = Rect (x0 m) (y0 m) (x1 m) (y1 m + 2)\<rparr>"

text \<open>\<^verbatim>\<open>_find_underscore_fields\<close>\<close>

definition find_underscore_fields :: "page \<Rightarrow> field list" where
  "find_underscore_fields pg =
     (let instances = search_for pg (U ''___'')
      in if instances = [] then [] else map underscore_field (merge_runs instances))"

text \<open>The class \<^verbatim>\<open>[A-Za-z\s/\'()#*]\<close>.\<close>

definition label_class :: "nat \<Rightarrow> bool" where
  "label_class c \<longleftrightarrow>
     (65 \<le> c \<and> c \<le> 90) \<or> (97 \<le> c \<and> c \<le> 122) \<or> py_isspace c \<or>
     c \<in> {47, 39, 40, 41, 35, 42}"

text \<open>The pattern \<^verbatim>\<open>([A-Za-z\s/\'()#*]+)\s*:\s*\<close>.\<close>

definition label_pattern :: "rx_item list" where
  "label_pattern =
     [(label_class, GPlus), (py_isspace, GStar), (\<lambda>c. c = 58, Once), (py_isspace, GStar)]"

text \<open>\<^verbatim>\<open>re.findall\<close> with this pattern: the text of group 1 of every match.\<close>

definition findall_labels :: "ustr \<Rightarrow> ustr list" where
  "findall_labels lt = map (\<lambda>segs. segs ! 0) (rx_finditer label_pattern lt)"

text \<open>
  The field that one located label instance \<open>li\<close> gives: nothing when the width is
  at most 20.
\<close>

definition label_field_of :: "real \<Rightarrow> rect \<Rightarrow> field list" where
  "label_field_of pw li =
     (let fx0 = x1 li + 2;
          fx1 = min (fx0 + 150) (pw - 20)
      in if fx1 - fx0 > 20 then [\<lparr>ftype = Text, frect = Rect fx0 (y0 li) fx1 (y1 li)\<rparr>] else [])"

text \<open>
  The loop over \<^verbatim>\<open>page.search_for(label.strip() + ":")\<close>: it stops at the first
  instance whose top is within 5 units of the line's top.
\<close>

definition label_fields_of_label :: "page \<Rightarrow> text_line \<Rightarrow> ustr \<Rightarrow> field list" where
  "label_fields_of_label pg line label =
     (case find (\<lambda>li. \<bar>y0 li - y0 (line_bbox line)\<bar> < 5)
                (search_for pg (py_strip label @ U '':''))
      of None \<Rightarrow> []
       | Some li \<Rightarrow> label_field_of (rect_width pg) li)"

definition line_text :: "text_line \<Rightarrow> ustr" where
  "line_text line = py_strip (concat (map span_text (line_spans line)))"

definition label_fields_of_line :: "page \<Rightarrow> text_line \<Rightarrow> field list" where
  "label_fields_of_line pg line =
     concat (map (label_fields_of_label pg line) (findall_labels (line_text line)))"

text \<open>\<^verbatim>\<open>_find_label_fields\<close>\<close>

definition find_label_fields :: "page \<Rightarrow> field list" where
  "find_label_fields pg =
     concat (map (\<lambda>block. concat (map (label_fields_of_line pg) (block_lines block)))
                 (get_page_text_blocks pg))"

subsection \<open>Orchestrator\<close>

text \<open>The deduplication loop at the end of \<^verbatim>\<open>detect_fields\<close>.\<close>

definition dedup_step :: "field list \<Rightarrow> field \<Rightarrow> field list" where
  "dedup_step unique f =
     (if width (frect f) \<le> 0 \<or> height (frect f) \<le> 0 then unique
      else
        let is_dup = list_ex (\<lambda>u. ftype f = ftype u \<and> intersects (frect f) (frect u)) unique
        in if \<not> is_dup then unique @ [f] else unique)"

definition dedup :: "field list \<Rightarrow> field list" where
  "dedup flds = foldl dedup_step [] flds"

definition native_fields :: "page \<Rightarrow> field list" where
  "native_fields pg =
     (let uf = find_underscore_fields pg
      in map (\<lambda>loc. \<lparr>ftype = Checkbox, frect = loc\<rparr>) (find_checkbox_locations pg) @ uf @
         (if uf = [] then find_label_fields pg else []))"

definition ocr_fields :: "page \<Rightarrow> nat \<Rightarrow> mistral_page list \<Rightarrow> field list" where
  "ocr_fields pg page_num mistral_pages =
     (let page_md = (case find (\<lambda>mp. mp_index mp = int page_num) mistral_pages of
                       Some mp \<Rightarrow> mp_markdown mp
                     | None \<Rightarrow> [])
      in if page_md \<noteq> [] then detect_fields_ocr pg page_md else [])"

text \<open>The body of \<^verbatim>\<open>detect_fields\<close>, once the page is at hand.\<close>

definition page_fields :: "page \<Rightarrow> nat \<Rightarrow> mistral_page list option \<Rightarrow> field list" where
  "page_fields pg page_num mistral_pages =
     (let text_blocks = get_page_text_blocks pg;
          flds = (if length text_blocks > 0 then native_fields pg
                  else case mistral_pages of
                         Some mps \<Rightarrow> ocr_fields pg page_num mps
                       | None \<Rightarrow> [])
      in dedup flds)"

text \<open>
  \<^verbatim>\<open>detect_fields\<close>; the document is the list of its pages, and \<^verbatim>\<open>self.doc[page_num]\<close>
  raises when there is no such page.
\<close>

definition detect_fields ::
  "page list \<Rightarrow> nat \<Rightarrow> mistral_page list option \<Rightarrow> error + field list" where
  "detect_fields doc page_num mistral_pages =
     (if page_num < length doc
      then Inr (page_fields (doc ! page_num) page_num mistral_pages)
      else Inl IndexError)"

subsection \<open>Conversion driver\<close>

record widget =
  w_rect :: rect
  w_field_name :: string
  w_field_type :: kind
  w_field_flags :: "nat option"

text \<open>\<^verbatim>\<open>str(n)\<close> of a natural number.\<close>

fun str_nat :: "nat \<Rightarrow> string" where
  "str_nat n =
     (if n < 10 then [''0123456789'' ! n]
      else str_nat (n div 10) @ [''0123456789'' ! (n mod 10)])"

definition make_widget :: "nat \<Rightarrow> nat \<Rightarrow> field \<Rightarrow> widget" where
  "make_widget i j f =
     \<lparr>w_rect = frect f,
      w_field_name = ''page'' @ str_nat (i + 1) @ ''_field'' @ str_nat (j + 1),
      w_field_type = ftype f,
      w_field_flags = (if ftype f = Text then Some 0 else None)\<rparr>"

text \<open>
  The result of a conversion: the count that \<^verbatim>\<open>convert\<close> returns, the widgets added
  (each with the index of its page, in the order of the calls of \<^verbatim>\<open>add_widget\<close>),
  and the lines printed.
\<close>

record conversion =
  total_fields :: nat
  widgets :: "(nat \<times> widget) list"
  printed :: "string list"

text \<open>The loop of \<^verbatim>\<open>convert\<close> over the pages \<open>is\<close>, from the state \<^verbatim>\<open>total_fields\<close> and the widgets so far.\<close>

fun convert_pages ::
  "page list \<Rightarrow> mistral_page list option \<Rightarrow> nat list \<Rightarrow> nat \<times> (nat \<times> widget) list
     \<Rightarrow> error + nat \<times> (nat \<times> widget) list" where
  "convert_pages doc mistral_pages [] st = Inr st"
| "convert_pages doc mistral_pages (i # is) st =
     (case detect_fields doc i mistral_pages of
        Inl e \<Rightarrow> Inl e
      | Inr flds \<Rightarrow>
          convert_pages doc mistral_pages is
            (fst st + length flds,
             snd st @ map (\<lambda>(j, f). (i, make_widget i j f)) (enumerate 0 flds)))"

text \<open>
  \<^verbatim>\<open>convert\<close>. The argument \<open>ocr\<close> is the outcome of the remote call
  \<^verbatim>\<open>_mistral_ocr_pdf()\<close>, should it be made: the pages of the response, or the
  message of the exception raised. Saving and closing the document are not modelled.
\<close>

definition convert :: "page list \<Rightarrow> string + mistral_page list \<Rightarrow> error + conversion" where
  "convert doc ocr =
     (let needs_ocr = list_ex (\<lambda>i. length (get_page_text_blocks (doc ! i)) = 0) [0..<length doc];
          (mistral_pages, out) =
             (if needs_ocr
              then (case ocr of
                      Inr pages \<Rightarrow> (Some pages, [])
                    | Inl e \<Rightarrow> (None, [''Mistral OCR failed: '' @ e]))
              else (None, []))
      in case convert_pages doc mistral_pages [0..<length doc] (0, []) of
           Inl e \<Rightarrow> Inl e
         | Inr (n, ws) \<Rightarrow> Inr \<lparr>total_fields = n, widgets = ws, printed = out\<rparr>)"

subsection \<open>Example inputs\<close>

definition cb_box :: field where
  "cb_box = \<lparr>ftype = Checkbox, frect = Rect 0 0 10 10\<rparr>"

definition tx_box :: field where
  "tx_box = \<lparr>ftype = Text, frect = Rect 5 5 50 15\<rparr>"

definition tx_box2 :: field where
  "tx_box2 = \<lparr>ftype = Text, frect = Rect 40 0 90 10\<rparr>"

subsection \<open>The scores of the fuzzy matcher, as the specification words them\<close>

text \<open>
  Substring score: when one of the two normalized strings contains the other, the length
  of the label over the length of the text (at least 1); otherwise nothing, counted as 0.
\<close>

definition substring_score :: "ustr \<Rightarrow> ustr \<Rightarrow> real" where
  "substring_score label_clean ocr_clean =
     (if py_in label_clean ocr_clean \<or> py_in ocr_clean label_clean
      then real (length label_clean) / real (max (length ocr_clean) 1)
      else 0)"

text \<open>
  Word-overlap score: the number of common words over the number of words of the label,
  counted only when there is a common word.
\<close>

definition word_score :: "ustr \<Rightarrow> ustr \<Rightarrow> real" where
  "word_score label_clean ocr_clean =
     (if set (py_split label_clean) \<inter> set (py_split ocr_clean) \<noteq> {}
      then real (card (set (py_split label_clean) \<inter> set (py_split ocr_clean)))
           / real (card (set (py_split label_clean)))
      else 0)"

text \<open>The score of a position: the greater of the two.\<close>

definition position_score :: "ustr \<Rightarrow> text_position \<Rightarrow> real" where
  "position_score label_clean tp =
     max (substring_score label_clean (ocr_clean_of tp)) (word_score label_clean (ocr_clean_of tp))"

definition pos_patient_name :: text_position where
  "pos_patient_name = \<lparr>tp_text = U ''Patient Name:'', tp_rect = Rect 50 50 150 70, tp_conf = 9 / 10\<rparr>"

definition pos_date_of_birth :: text_position where
  "pos_date_of_birth = \<lparr>tp_text = U ''Date of Birth'', tp_rect = Rect 50 90 150 110, tp_conf = 9 / 10\<rparr>"

text \<open>
  The loop of \<^verbatim>\<open>_detect_fields_ocr\<close> once more, recording with each field the index of
  the position it was built from (the list \<^verbatim>\<open>fields\<close> itself does not keep it).
  Erasing the indices gives \<open>ocr_loop\<close>.
\<close>

definition ocr_step_bound ::
  "real \<Rightarrow> text_position list \<Rightarrow> (nat \<times> field) list \<times> nat set \<Rightarrow> field_info
     \<Rightarrow> (nat \<times> field) list \<times> nat set" where
  "ocr_step_bound page_width ocr_positions st fi =
     (case st of (bound, used_positions) \<Rightarrow>
        (case find_label_position (fi_label fi) ocr_positions used_positions of
           None \<Rightarrow> (bound, used_positions)
         | Some (idx, tp) \<Rightarrow>
             (case fi_type fi of
                Checkbox \<Rightarrow> (bound @ [(idx, checkbox_field_of tp)], insert idx used_positions)
              | Text \<Rightarrow>
                  (bound @ map (Pair idx) (text_field_of page_width ocr_positions idx tp),
                   insert idx used_positions))))"

definition ocr_loop_bound ::
  "real \<Rightarrow> text_position list \<Rightarrow> field_info list \<Rightarrow> (nat \<times> field) list \<times> nat set" where
  "ocr_loop_bound page_width ocr_positions form_fields =
     foldl (ocr_step_bound page_width ocr_positions) ([], {}) form_fields"

text \<open>
  A scanned page (no native text) with three texts measured by the local OCR engine, and
  the markup of the remote OCR service for it.
\<close>

definition pos_male :: text_position where
  "pos_male = \<lparr>tp_text = U ''Male'', tp_rect = Rect 50 50 100 70, tp_conf = 9 / 10\<rparr>"

definition pos_female :: text_position where
  "pos_female = \<lparr>tp_text = U ''Female'', tp_rect = Rect 200 50 260 70, tp_conf = 9 / 10\<rparr>"

definition pos_name :: text_position where
  "pos_name = \<lparr>tp_text = U ''Name:'', tp_rect = Rect 50 150 150 170, tp_conf = 4 / 5\<rparr>"

definition scan_page :: page where
  "scan_page =
     \<lparr>page_blocks = [], search_for = (\<lambda>s. []), rect_width = 600, rect_height = 800,
      img_width = 1200, img_height = 1600,
      readtext =
        [(((100, 100), (200, 100), (200, 140), (100, 140)), U ''Male'', 9 / 10),
         (((400, 100), (520, 100), (520, 140), (400, 140)), U ''Female'', 9 / 10),
         (((100, 300), (300, 300), (300, 340), (100, 340)), U ''Name:'', 4 / 5)]\<rparr>"

definition scan_markdown :: ustr where
  "scan_markdown = [9744] @ U '' Male '' @ [9744] @ U '' Female'' @ [10] @ U ''Name:''"

definition cand_male :: field_info where
  "cand_male = \<lparr>fi_type = Checkbox, fi_label = U ''Male''\<rparr>"

definition cand_female :: field_info where
  "cand_female = \<lparr>fi_type = Checkbox, fi_label = U ''Female''\<rparr>"

definition cand_name :: field_info where
  "cand_name = \<lparr>fi_type = Text, fi_label = U ''Name:''\<rparr>"

text \<open>
  A page with native text: one line reading "Name:" followed by a blank, whose
  underscores the glyph search finds as two abutting runs.
\<close>

definition name_line :: text_line where
  "name_line = \<lparr>line_spans = [\<lparr>span_text = U ''Name: ______''\<rparr>], line_bbox = Rect 50 100 150 112\<rparr>"

definition text_page :: page where
  "text_page =
     \<lparr>page_blocks = [\<lparr>block_type = 0, block_lines = [name_line]\<rparr>],
      search_for = (\<lambda>s. if s = U ''___'' then [Rect 120 100 135 112, Rect 90 100 120 112]
                         else if s = U ''Name:'' then [Rect 50 100 85 112]
                         else []),
      rect_width = 600, rect_height = 800, img_width = 1200, img_height = 1600,
      readtext = []\<rparr>"

definition wide_gap_page :: page where
  "wide_gap_page =
     \<lparr>page_blocks = [\<lparr>block_type = 0, block_lines = []\<rparr>],
      search_for = (\<lambda>s. if s = U ''___'' then [Rect 50 100 80 112, Rect 86 100 120 112] else []),
      rect_width = 600, rect_height = 800, img_width = 1200, img_height = 1600,
      readtext = []\<rparr>"

text \<open>The same page without the underscores: only the label is found.\<close>

definition label_page :: page where
  "label_page =
     \<lparr>page_blocks = [\<lparr>block_type = 1, block_lines = []\<rparr>, \<lparr>block_type = 0, block_lines = [name_line]\<rparr>],
      search_for = (\<lambda>s. if s = U ''Name:'' then [Rect 50 300 85 312, Rect 50 100 85 112] else []),
      rect_width = 600, rect_height = 800, img_width = 1200, img_height = 1600,
      readtext = []\<rparr>"

definition scan_ocr_page :: mistral_page where
  "scan_ocr_page = \<lparr>mp_index = 1, mp_markdown = scan_markdown\<rparr>"

definition other_ocr_page :: mistral_page where
  "other_ocr_page = \<lparr>mp_index = 0, mp_markdown = U ''Name:''\<rparr>"

text \<open>
  Two underscore runs 6 units apart, the right one set half a unit higher than the left
  one.
\<close>

definition skew_page :: page where
  "skew_page =
     \<lparr>page_blocks = [\<lparr>block_type = 0, block_lines = []\<rparr>],
      search_for = (\<lambda>s. if s = U ''___''
                         then [Rect 50 (201 / 2) 80 (225 / 2), Rect 86 100 120 112] else []),
      rect_width = 600, rect_height = 800, img_width = 1200, img_height = 1600,
      readtext = []\<rparr>"

text \<open>Joining pieces with a separator, the inverse of \<^verbatim>\<open>str.split\<close>.\<close>

fun join_sep :: "ustr \<Rightarrow> ustr list \<Rightarrow> ustr" where
  "join_sep sep [] = []"
| "join_sep sep [p] = p"
| "join_sep sep (p # q # ps) = p @ sep @ join_sep sep (q # ps)"

text \<open>Lines of markup with checkbox glyphs.\<close>

definition yes_no_line :: ustr where
  "yes_no_line = [9744] @ U '' Yes '' @ [9744] @ U '' No''"

definition cand_yes :: field_info where
  "cand_yes = \<lparr>fi_type = Checkbox, fi_label = U ''Yes''\<rparr>"

definition cand_no :: field_info where
  "cand_no = \<lparr>fi_type = Checkbox, fi_label = U ''No''\<rparr>"

definition mixed_tail :: ustr where
  "mixed_tail = U '' Yes '' @ [9744] @ U '' No''"

definition mixed_line :: ustr where
  "mixed_line = [9745] @ mixed_tail"

definition no_ws_pair :: "nat \<Rightarrow> nat \<Rightarrow> bool" where
  "no_ws_pair a b \<longleftrightarrow> \<not> (py_isspace a \<and> py_isspace b)"

definition consent_line :: ustr where
  "consent_line = [9744] @ U '' I have read and agree to the terms on page two''"

definition consent_option :: ustr where
  "consent_option = U ''I have read and agree to the terms on page two''"

definition consent_label :: ustr where
  "consent_label = U ''I have read and agree to the t''"

subsection \<open>The label pattern, read as a scan of the line\<close>

text \<open>
  The matches of \<^verbatim>\<open>([A-Za-z\s/\'()#*]+)\s*:\s*\<close> described without the matcher: at a
  character of the class whose longest run of class characters is directly followed by a
  colon, the run is a label and the scan resumes after the colon and the whitespace that
  follows it; at any other character the scan moves on by one character.
\<close>

function scan_labels :: "ustr \<Rightarrow> ustr list" where
  "scan_labels [] = []"
| "scan_labels (c # cs) =
     (if label_class c \<and> take 1 (dropWhile label_class cs) = [58]
      then (c # takeWhile label_class cs)
           # scan_labels (dropWhile py_isspace (drop 1 (dropWhile label_class cs)))
      else scan_labels cs)"
  by pat_completeness auto
termination
proof (relation "measure length")
  show "wf (measure length)" by simp
next
  fix c :: nat and cs :: ustr
  have "length (dropWhile py_isspace (drop 1 (dropWhile label_class cs)))
          \<le> length (drop 1 (dropWhile label_class cs))"
    by (rule length_dropWhile_le)
  also have "\<dots> \<le> length (dropWhile label_class cs)" by simp
  also have "\<dots> \<le> length cs" by (rule length_dropWhile_le)
  finally show "(dropWhile py_isspace (drop 1 (dropWhile label_class cs)), c # cs) \<in> measure length"
    by simp
next
  fix c :: nat and cs :: ustr
  show "(cs, c # cs) \<in> measure length" by simp
qed

text \<open>The class and the pattern with the digits added.\<close>

definition digit_label_class :: "nat \<Rightarrow> bool" where
  "digit_label_class c \<longleftrightarrow> label_class c \<or> (48 \<le> c \<and> c \<le> 57)"

definition digit_label_pattern :: "rx_item list" where
  "digit_label_pattern =
     [(digit_label_class, GPlus), (py_isspace, GStar), (\<lambda>c. c = 58, Once), (py_isspace, GStar)]"

text \<open>A page 200 units wide with one label whose right edge is at 100.\<close>

definition bare_line :: text_line where
  "bare_line = \<lparr>line_spans = [\<lparr>span_text = U ''Name:''\<rparr>], line_bbox = Rect 50 100 100 112\<rparr>"

definition narrow_page :: page where
  "narrow_page =
     \<lparr>page_blocks = [\<lparr>block_type = 0, block_lines = [bare_line]\<rparr>],
      search_for = (\<lambda>s. if s = U ''Name:'' then [Rect 50 100 100 112] else []),
      rect_width = 200, rect_height = 800, img_width = 400, img_height = 1600,
      readtext = []\<rparr>"

section \<open>Properties\<close>

subsection \<open>Deduplicator\<close>

lemma dedup_snoc: "dedup (fs @ [f]) = dedup_step (dedup fs) f"
  by (simp add: dedup_def)

lemma dedup_step_cases:
  "dedup_step unique f =
     (if width (frect f) \<le> 0 \<or> height (frect f) \<le> 0
         \<or> (\<exists>u\<in>set unique. ftype u = ftype f \<and> intersects (frect f) (frect u))
      then unique else unique @ [f])"
  by (auto simp: dedup_step_def list_ex_iff Let_def)

lemma dedup_positive: "g \<in> set (dedup fs) \<Longrightarrow> 0 < width (frect g) \<and> 0 < height (frect g)"
proof (induction fs arbitrary: g rule: rev_induct)
  case Nil
  then show ?case by (simp add: dedup_def)
next
  case (snoc f fs)
  then show ?case
    by (auto simp: dedup_snoc dedup_step_cases split: if_splits)
qed

lemma dedup_subseq: "subseq (dedup fs) fs"
proof (induction fs rule: rev_induct)
  case Nil
  show ?case by (simp add: dedup_def)
next
  case (snoc f fs)
  have "subseq (dedup fs) (fs @ [f])"
    using snoc by (rule subseq_rev_drop_many)
  moreover have "subseq (dedup fs @ [f]) (fs @ [f])"
    using snoc by (simp add: list_emb_append_mono)
  ultimately show ?case
    by (simp add: dedup_snoc dedup_step_cases)
qed

text \<open>
  C7. The deduplicator keeps a descriptor exactly when its rectangle has positive width
  and height and no descriptor kept before it has the same kind and an intersecting
  rectangle: this is what processing one more descriptor \<open>f\<close> after the list \<open>fs\<close> does.
  Hence every descriptor kept has positive width and height, the descriptors kept are a
  subsequence of the input (their order is the order of production), and two descriptors
  of different kinds are both kept whether or not they overlap.
\<close>

theorem dedup_same_kind_only:
  "dedup (fs @ [f]) =
     (if width (frect f) \<le> 0 \<or> height (frect f) \<le> 0
         \<or> (\<exists>u\<in>set (dedup fs). ftype u = ftype f \<and> intersects (frect f) (frect u))
      then dedup fs else dedup fs @ [f])
   \<and> (\<forall>g\<in>set (dedup fs). 0 < width (frect g) \<and> 0 < height (frect g))
   \<and> subseq (dedup fs) fs
   \<and> (0 < width (frect g) \<and> 0 < height (frect g) \<and> 0 < width (frect f) \<and> 0 < height (frect f)
        \<and> ftype g \<noteq> ftype f \<longrightarrow> dedup [g, f] = [g, f])"
proof (intro conjI)
  show "dedup (fs @ [f]) =
     (if width (frect f) \<le> 0 \<or> height (frect f) \<le> 0
         \<or> (\<exists>u\<in>set (dedup fs). ftype u = ftype f \<and> intersects (frect f) (frect u))
      then dedup fs else dedup fs @ [f])"
    by (simp only: dedup_snoc dedup_step_cases)
  show "\<forall>g\<in>set (dedup fs). 0 < width (frect g) \<and> 0 < height (frect g)"
    using dedup_positive by blast
  show "subseq (dedup fs) fs" by (rule dedup_subseq)
  show "0 < width (frect g) \<and> 0 < height (frect g) \<and> 0 < width (frect f) \<and> 0 < height (frect f)
        \<and> ftype g \<noteq> ftype f \<longrightarrow> dedup [g, f] = [g, f]"
    by (auto simp: dedup_def dedup_step_def)
qed

theorem dedup_same_kind_only_witness:
  "dedup [cb_box, tx_box] = [cb_box, tx_box]
   \<and> intersects (frect tx_box) (frect cb_box)
   \<and> dedup ([cb_box, tx_box] @ [tx_box2]) = [cb_box, tx_box]
   \<and> 0 < width (frect tx_box) \<and> 0 < height (frect tx_box)"
proof -
  have d: "dedup [cb_box, tx_box] = [cb_box, tx_box]"
    by (simp add: dedup_def dedup_step_def cb_box_def tx_box_def width_def height_def Rect_def)
  have i: "intersects (frect tx_box) (frect cb_box)"
    by (simp add: intersects_def is_empty_def cb_box_def tx_box_def Rect_def)
  have i2: "intersects (frect tx_box2) (frect tx_box)"
    by (simp add: intersects_def is_empty_def tx_box2_def tx_box_def Rect_def)
  have k: "ftype tx_box = ftype tx_box2" by (simp add: tx_box_def tx_box2_def)
  from dedup_same_kind_only [of "[cb_box, tx_box]" tx_box2 cb_box] d i i2 k
  show ?thesis by auto
qed

subsection \<open>Fuzzy position matcher\<close>

lemma substring_score_nonneg: "0 \<le> substring_score lc oc"
  by (simp add: substring_score_def)

lemma word_score_nonneg: "0 \<le> word_score lc oc"
  by (simp add: word_score_def)

lemma position_score_nonneg: "0 \<le> position_score lc tp"
  by (simp add: position_score_def substring_score_nonneg le_max_iff_disj)

lemma two_updates:
  fixes s1 s2 bs :: real
  assumes "0 \<le> bs" "\<not> c1 \<longrightarrow> s1' = 0" "c1 \<longrightarrow> s1' = s1" "\<not> c2 \<longrightarrow> s2' = 0" "c2 \<longrightarrow> s2' = s2"
    and st1: "st1 = (if c1 then (if s1 > bs then (new, s1) else (bm, bs)) else (bm, bs))"
  shows "(if c2 then (if s2 > snd st1 then (new, s2) else st1) else st1) =
         (if max s1' s2' > bs then (new, max s1' s2') else (bm, bs))"
  using assms by (cases c1; cases c2) (auto simp: max_def)

lemma card_common_iff:
  "(1 \<le> card (set xs \<inter> set ys) \<and> 0 < card (set xs)) \<longleftrightarrow> set xs \<inter> set ys \<noteq> {}"
proof -
  have "finite (set xs \<inter> set ys)" by simp
  then have "1 \<le> card (set xs \<inter> set ys) \<longleftrightarrow> set xs \<inter> set ys \<noteq> {}"
    by (metis One_nat_def Suc_le_eq card_gt_0_iff)
  moreover have "set xs \<inter> set ys \<noteq> {} \<Longrightarrow> 0 < card (set xs)"
    by (metis List.finite_set card_gt_0_iff inf_bot_left)
  ultimately show ?thesis by blast
qed

lemma flp_step_eq:
  assumes "0 \<le> bs"
  shows "flp_step lc used (bm, bs) (i, tp) =
     (if i \<in> used then (bm, bs)
      else if position_score lc tp > bs then (Some (i, tp), position_score lc tp)
      else (bm, bs))"
proof (cases "i \<in> used")
  case True
  then show ?thesis by (simp add: flp_step_def)
next
  case False
  let ?oc = "ocr_clean_of tp"
  let ?c1 = "py_in lc ?oc \<or> py_in ?oc lc"
  let ?s1 = "real (length lc) / real (max (length ?oc) 1)"
  let ?c2 = "set (py_split lc) \<inter> set (py_split ?oc) \<noteq> {}"
  let ?s2 = "real (card (set (py_split lc) \<inter> set (py_split ?oc))) / real (card (set (py_split lc)))"
  let ?st1 = "(if ?c1 then (if ?s1 > bs then (Some (i, tp), ?s1) else (bm, bs)) else (bm, bs))"
  have step: "flp_step lc used (bm, bs) (i, tp) =
      (if ?c2 then (if ?s2 > snd ?st1 then (Some (i, tp), ?s2) else ?st1) else ?st1)"
    using False card_common_iff [of "py_split lc" "py_split ?oc"]
    by (simp add: flp_step_def Let_def)
  have "(if ?c2 then (if ?s2 > snd ?st1 then (Some (i, tp), ?s2) else ?st1) else ?st1) =
        (if max (substring_score lc ?oc) (word_score lc ?oc) > bs
         then (Some (i, tp), max (substring_score lc ?oc) (word_score lc ?oc)) else (bm, bs))"
    by (rule two_updates [OF assms]) (simp_all add: substring_score_def word_score_def)
  with step False show ?thesis by (simp add: position_score_def)
qed

lemma flp_loop_inv:
  "case foldl (flp_step lc used) (None, 0) (enumerate 0 ps) of (bm, bs) \<Rightarrow>
     0 \<le> bs \<and> (\<forall>j<length ps. j \<notin> used \<longrightarrow> position_score lc (ps ! j) \<le> bs) \<and>
     (case bm of
        None \<Rightarrow> bs = 0
      | Some (i, tp) \<Rightarrow>
          i < length ps \<and> i \<notin> used \<and> tp = ps ! i \<and> position_score lc tp = bs \<and> 0 < bs \<and>
          (\<forall>j<i. j \<notin> used \<longrightarrow> position_score lc (ps ! j) < bs))"
proof (induction ps rule: rev_induct)
  case Nil
  show ?case by simp
next
  case (snoc p ps)
  obtain bm bs where st: "foldl (flp_step lc used) (None, 0) (enumerate 0 ps) = (bm, bs)"
    by (cases "foldl (flp_step lc used) (None, 0) (enumerate 0 ps)")
  from snoc st have nn: "0 \<le> bs"
    and ub: "\<forall>j<length ps. j \<notin> used \<longrightarrow> position_score lc (ps ! j) \<le> bs"
    and bm: "case bm of
        None \<Rightarrow> bs = 0
      | Some (i, tp) \<Rightarrow>
          i < length ps \<and> i \<notin> used \<and> tp = ps ! i \<and> position_score lc tp = bs \<and> 0 < bs \<and>
          (\<forall>j<i. j \<notin> used \<longrightarrow> position_score lc (ps ! j) < bs)"
    by simp_all
  have fold: "foldl (flp_step lc used) (None, 0) (enumerate 0 (ps @ [p])) =
      flp_step lc used (bm, bs) (length ps, p)"
    by (simp add: enumerate_append_eq st)
  show ?case
  proof (cases "length ps \<in> used \<or> \<not> position_score lc p > bs")
    case True
    then have "flp_step lc used (bm, bs) (length ps, p) = (bm, bs)"
      by (auto simp: flp_step_eq [OF nn])
    with fold True nn ub bm show ?thesis
      by (auto simp: less_Suc_eq nth_append split: option.splits)
  next
    case False
    then have "flp_step lc used (bm, bs) (length ps, p) = (Some (length ps, p), position_score lc p)"
      by (auto simp: flp_step_eq [OF nn])
    with fold False nn ub show ?thesis
      by (auto simp: less_Suc_eq nth_append)
  qed
qed

lemmas str_defs = U_def py_strip_def py_lstrip_def py_rstrip_def py_isspace_def py_in_def sublist_code
  py_split_sep_def py_replace1_def py_lower_def lower_cp_def py_rstrip_chars_def py_split_def

lemma find_label_position_short:
  "length (label_clean_of l) < 2 \<Longrightarrow> find_label_position l ps used = None"
  by (simp add: find_label_position_def)

lemma find_label_position_iff:
  assumes len: "2 \<le> length (label_clean_of l)"
  shows "find_label_position l ps used = Some (i, tp) \<longleftrightarrow>
         i < length ps \<and> i \<notin> used \<and> tp = ps ! i \<and>
         3 / 10 < position_score (label_clean_of l) tp \<and>
         (\<forall>j<length ps. j \<notin> used \<longrightarrow>
             position_score (label_clean_of l) (ps ! j) \<le> position_score (label_clean_of l) tp) \<and>
         (\<forall>j<i. j \<notin> used \<longrightarrow>
             position_score (label_clean_of l) (ps ! j) < position_score (label_clean_of l) tp)"
    (is "?L \<longleftrightarrow> ?R")
proof -
  let ?lc = "label_clean_of l"
  obtain bm bs where st: "foldl (flp_step ?lc used) (None, 0) (enumerate 0 ps) = (bm, bs)"
    by (cases "foldl (flp_step ?lc used) (None, 0) (enumerate 0 ps)")
  from flp_loop_inv [where lc = ?lc and used = used and ps = ps] st have nn: "0 \<le> bs"
    and ub: "\<forall>j<length ps. j \<notin> used \<longrightarrow> position_score ?lc (ps ! j) \<le> bs"
    and bm: "case bm of
        None \<Rightarrow> bs = 0
      | Some (i, tp) \<Rightarrow>
          i < length ps \<and> i \<notin> used \<and> tp = ps ! i \<and> position_score ?lc tp = bs \<and> 0 < bs \<and>
          (\<forall>j<i. j \<notin> used \<longrightarrow> position_score ?lc (ps ! j) < bs)"
    by simp_all
  have res: "find_label_position l ps used = (if bm \<noteq> None \<and> bs > 3 / 10 then bm else None)"
    using len st by (simp add: find_label_position_def Let_def)
  show ?thesis
  proof
    assume ?L
    with res have "bm = Some (i, tp)" and "bs > 3 / 10"
      by (auto split: if_splits)
    with bm ub show ?R by auto
  next
    assume R: ?R
    then have "position_score ?lc (ps ! i) \<le> bs" and big: "3 / 10 < position_score ?lc (ps ! i)"
      using ub by auto
    then have bs: "3 / 10 < bs" by simp
    then have "bm \<noteq> None" using bm by (auto split: option.splits)
    then obtain i' tp' where bm': "bm = Some (i', tp')" by (cases bm) auto
    with bm have i': "i' < length ps" "i' \<notin> used" "tp' = ps ! i'" "position_score ?lc (ps ! i') = bs"
      and first: "\<forall>j<i'. j \<notin> used \<longrightarrow> position_score ?lc (ps ! j) < bs"
      by auto
    have eq: "position_score ?lc (ps ! i) = bs"
      using R i' \<open>position_score ?lc (ps ! i) \<le> bs\<close> by force
    have "\<not> i < i'" using first R eq by auto
    moreover have "\<not> i' < i" using R i' eq by auto
    ultimately have "i = i'" by simp
    with bm' i' R res bs show ?L by simp
  qed
qed

lemma patient_name_selected:
  "find_label_position (U ''Patient Name'') [pos_patient_name] {} = Some (0, pos_patient_name)"
proof -
  have oc: "ocr_clean_of pos_patient_name = U ''patient name:''"
    by (simp add: str_defs ocr_clean_of_def pos_patient_name_def)
  have lc: "label_clean_of (U ''Patient Name'') = U ''patient name''"
    by (simp add: str_defs label_clean_of_def)
  have "flp_step (U ''patient name'') {} (None, 0) (0, pos_patient_name) = (Some (0, pos_patient_name), 12 / 13)"
    by (simp add: flp_step_def oc str_defs Let_def)
  then show ?thesis
    by (simp add: find_label_position_def lc) (simp add: U_def)
qed

lemma date_of_birth_rejected:
  "find_label_position (U ''Patient Name'') [pos_date_of_birth] {} = None"
proof -
  have oc: "ocr_clean_of pos_date_of_birth = U ''date of birth''"
    by (simp add: str_defs ocr_clean_of_def pos_date_of_birth_def)
  have lc: "label_clean_of (U ''Patient Name'') = U ''patient name''"
    by (simp add: str_defs label_clean_of_def)
  have "flp_step (U ''patient name'') {} (None, 0) (0, pos_date_of_birth) = (None, 0)"
    by (simp add: flp_step_def oc str_defs Let_def)
  then show ?thesis
    by (simp add: find_label_position_def lc) (simp add: U_def)
qed

text \<open>
  C2. The fuzzy position matcher returns none when the normalized label (trailing ':' and
  '*' stripped, trimmed, lowercased) has fewer than 2 characters. Otherwise it returns
  position \<open>i\<close> exactly when \<open>i\<close> is an unused position whose score (the greater of the
  substring score and the word-overlap score) exceeds 0.3, no unused position has a
  greater score, and every unused position before \<open>i\<close> has a smaller one: the first
  position attaining the highest score, if and only if that score exceeds 0.3. The label
  "Patient Name" is matched with the position text "Patient Name:", and is matched with
  nothing when the only position reads "Date of Birth".
\<close>

theorem find_label_position_first_best:
  "(length (label_clean_of l) < 2 \<longrightarrow> find_label_position l ps used = None) \<and>
   (2 \<le> length (label_clean_of l) \<longrightarrow>
      (find_label_position l ps used = Some (i, tp) \<longleftrightarrow>
         i < length ps \<and> i \<notin> used \<and> tp = ps ! i \<and>
         3 / 10 < position_score (label_clean_of l) tp \<and>
         (\<forall>j<length ps. j \<notin> used \<longrightarrow>
             position_score (label_clean_of l) (ps ! j) \<le> position_score (label_clean_of l) tp) \<and>
         (\<forall>j<i. j \<notin> used \<longrightarrow>
             position_score (label_clean_of l) (ps ! j) < position_score (label_clean_of l) tp))) \<and>
   find_label_position (U ''Patient Name'') [pos_patient_name] {} = Some (0, pos_patient_name) \<and>
   find_label_position (U ''Patient Name'') [pos_date_of_birth] {} = None"
  using find_label_position_short [of l ps used] find_label_position_iff [of l ps used i tp]
    patient_name_selected date_of_birth_rejected
  by blast

lemma label_clean_patient_name: "label_clean_of (U ''Patient Name'') = U ''patient name''"
  by (simp add: str_defs label_clean_of_def)

lemma score_patient_name: "position_score (U ''patient name'') pos_patient_name = 12 / 13"
proof -
  have oc: "ocr_clean_of pos_patient_name = U ''patient name:''"
    by (simp add: str_defs ocr_clean_of_def pos_patient_name_def)
  show ?thesis
    by (simp add: position_score_def oc substring_score_def word_score_def str_defs)
qed

lemma score_date_of_birth: "position_score (U ''patient name'') pos_date_of_birth = 0"
proof -
  have oc: "ocr_clean_of pos_date_of_birth = U ''date of birth''"
    by (simp add: str_defs ocr_clean_of_def pos_date_of_birth_def)
  show ?thesis
    by (simp add: position_score_def oc substring_score_def word_score_def str_defs)
qed

theorem find_label_position_first_best_witness:
  "length (label_clean_of (U ''A:'')) < 2
   \<and> find_label_position (U ''A:'') [pos_patient_name] {} = None
   \<and> 2 \<le> length (label_clean_of (U ''Patient Name''))
   \<and> position_score (label_clean_of (U ''Patient Name'')) pos_date_of_birth = 0
   \<and> position_score (label_clean_of (U ''Patient Name'')) pos_patient_name = 12 / 13
   \<and> find_label_position (U ''Patient Name'') [pos_date_of_birth, pos_patient_name] {}
       = Some (1, pos_patient_name)"
proof -
  have short: "length (label_clean_of (U ''A:'')) < 2"
    by (simp add: str_defs label_clean_of_def)
  have long: "2 \<le> length (label_clean_of (U ''Patient Name''))"
    by (simp add: label_clean_patient_name) (simp add: U_def)
  have s0: "position_score (label_clean_of (U ''Patient Name'')) pos_date_of_birth = 0"
    by (simp add: label_clean_patient_name score_date_of_birth)
  have s1: "position_score (label_clean_of (U ''Patient Name'')) pos_patient_name = 12 / 13"
    by (simp add: label_clean_patient_name score_patient_name)
  have none: "find_label_position (U ''A:'') [pos_patient_name] {} = None"
    using find_label_position_first_best [of "U ''A:''" "[pos_patient_name]" "{}"] short
    by blast
  have "find_label_position (U ''Patient Name'') [pos_date_of_birth, pos_patient_name] {}
       = Some (1, pos_patient_name)"
    using find_label_position_first_best
      [of "U ''Patient Name''" "[pos_date_of_birth, pos_patient_name]" "{}" 1 pos_patient_name]
      long s0 s1
    by (simp add: less_Suc_eq nth_Cons' all_conj_distrib)
  with short long s0 s1 none show ?thesis by simp
qed

subsection \<open>OCR field synthesizer\<close>

text \<open>
  In exact arithmetic the clamp leaves a width between 20 and 200, so the guard
  \<^verbatim>\<open>field_x1 - field_x0 > 15\<close> holds and a matched text candidate gives exactly one
  descriptor. The program computes with doubles, which round each sum and difference:
  there the width can miss 20 or 200 by a unit in the last place, and the lemmas below say
  nothing about those last digits.
\<close>

lemma clamp_width:
  fixes a b :: real
  shows "20 \<le> max (a + 20) (min b (a + 200)) - a \<and> max (a + 20) (min b (a + 200)) - a \<le> 200"
  by (auto simp: max_def min_def)

lemma text_field_of_single:
  "\<exists>f. text_field_of pw ps idx tp = [f] \<and> ftype f = Text
       \<and> 20 \<le> width (frect f) \<and> width (frect f) \<le> 200"
proof -
  let ?a = "x1 (tp_rect tp) + 2"
  let ?b = "foldl (limit_step idx tp) (pw - 20) (enumerate 0 ps)"
  let ?c = "max (?a + 20) (min ?b (?a + 200))"
  from clamp_width [of ?a ?b] have w: "20 \<le> ?c - ?a" "?c - ?a \<le> 200" by simp_all
  then have "?c - ?a > 15" by simp
  then have "text_field_of pw ps idx tp =
      [\<lparr>ftype = Text, frect = Rect ?a (y0 (tp_rect tp)) ?c (y1 (tp_rect tp))\<rparr>]"
    unfolding text_field_of_def Let_def by (rule if_P)
  with w show ?thesis by (simp add: width_def Rect_def)
qed

lemma find_label_position_unused:
  assumes "find_label_position l ps used = Some (i, tp)"
  shows "i \<notin> used \<and> i < length ps \<and> tp = ps ! i"
proof (cases "length (label_clean_of l) < 2")
  case True
  with assms show ?thesis by (simp add: find_label_position_short)
next
  case False
  then have "2 \<le> length (label_clean_of l)" by simp
  from find_label_position_iff [OF this, of ps used i tp] assms show ?thesis by blast
qed

lemma ocr_step_bound_erase:
  "map snd (fst (ocr_step_bound pw ps (bound, used) fi)) = fst (ocr_step pw ps (map snd bound, used) fi)
   \<and> snd (ocr_step_bound pw ps (bound, used) fi) = snd (ocr_step pw ps (map snd bound, used) fi)"
  by (auto simp: ocr_step_bound_def ocr_step_def comp_def split: option.splits kind.splits)

lemma ocr_loop_bound_erase:
  "map snd (fst (ocr_loop_bound pw ps ffs)) = fst (ocr_loop pw ps ffs)
   \<and> snd (ocr_loop_bound pw ps ffs) = snd (ocr_loop pw ps ffs)"
proof (induction ffs rule: rev_induct)
  case Nil
  show ?case by (simp add: ocr_loop_bound_def ocr_loop_def)
next
  case (snoc fi ffs)
  obtain bound used where b: "ocr_loop_bound pw ps ffs = (bound, used)"
    by (cases "ocr_loop_bound pw ps ffs")
  with snoc have l: "ocr_loop pw ps ffs = (map snd bound, used)"
    by (cases "ocr_loop pw ps ffs") simp
  have "ocr_loop_bound pw ps (ffs @ [fi]) = ocr_step_bound pw ps (bound, used) fi"
    using b by (simp add: ocr_loop_bound_def)
  moreover have "ocr_loop pw ps (ffs @ [fi]) = ocr_step pw ps (map snd bound, used) fi"
    using l by (simp add: ocr_loop_def)
  ultimately show ?case using ocr_step_bound_erase [of pw ps bound used fi] by simp
qed

lemma ocr_step_bound_inv:
  assumes "distinct (map fst bound)" "fst ` set bound = used"
  shows "distinct (map fst (fst (ocr_step_bound pw ps (bound, used) fi)))
         \<and> fst ` set (fst (ocr_step_bound pw ps (bound, used) fi))
             = snd (ocr_step_bound pw ps (bound, used) fi)"
proof (cases "find_label_position (fi_label fi) ps used")
  case None
  with assms show ?thesis by (simp add: ocr_step_bound_def)
next
  case (Some m)
  obtain idx tp where m: "m = (idx, tp)" by (cases m)
  with Some have fresh: "idx \<notin> used" using find_label_position_unused by blast
  obtain f where f: "text_field_of pw ps idx tp = [f]"
    using text_field_of_single by blast
  show ?thesis
    using Some m fresh f assms
    by (cases "fi_type fi") (auto simp: ocr_step_bound_def)
qed

lemma ocr_loop_bound_inv:
  "distinct (map fst (fst (ocr_loop_bound pw ps ffs)))
   \<and> fst ` set (fst (ocr_loop_bound pw ps ffs)) = snd (ocr_loop_bound pw ps ffs)"
proof (induction ffs rule: rev_induct)
  case Nil
  show ?case by (simp add: ocr_loop_bound_def)
next
  case (snoc fi ffs)
  obtain bound used where b: "ocr_loop_bound pw ps ffs = (bound, used)"
    by (cases "ocr_loop_bound pw ps ffs")
  have "ocr_loop_bound pw ps (ffs @ [fi]) = ocr_step_bound pw ps (bound, used) fi"
    using b by (simp add: ocr_loop_bound_def)
  with snoc b ocr_step_bound_inv [of bound used pw ps fi] show ?case by simp
qed

subsection \<open>The scanned page of the examples, evaluated\<close>

lemmas cb_defs = ALL_CB_def CHECKBOX_CHARS_def CHECKBOX_ENCODED_def cut_option_def clean_option_def
  option_candidate_def checkbox_options_def line_checkboxes_def

lemmas md_defs = md_label_pattern_def md_label_class_def rx_item_match_def skip_keywords_def
  label_candidate_def line_labels_def line_fields_def extract_form_fields_from_markdown_def

lemma scan_candidates:
  "extract_form_fields_from_markdown scan_markdown = [cand_male, cand_female, cand_name]"
  by (simp add: scan_markdown_def cand_male_def cand_female_def cand_name_def str_defs cb_defs md_defs)

lemma scan_positions:
  "ocr_page_positions scan_page = [pos_male, pos_female, pos_name]"
  by (simp add: ocr_page_positions_def scan_page_def pos_male_def pos_female_def pos_name_def Rect_def)

lemma clean_male: "ocr_clean_of pos_male = U ''male''"
  by (simp add: str_defs ocr_clean_of_def pos_male_def)

lemma clean_female: "ocr_clean_of pos_female = U ''female''"
  by (simp add: str_defs ocr_clean_of_def pos_female_def)

lemma clean_name: "ocr_clean_of pos_name = U ''name:''"
  by (simp add: str_defs ocr_clean_of_def pos_name_def)

lemmas scan_clean = clean_male clean_female clean_name

lemma find_male:
  "find_label_position (fi_label cand_male) [pos_male, pos_female, pos_name] {} = Some (0, pos_male)"
  by (simp add: find_label_position_def label_clean_of_def cand_male_def flp_step_def scan_clean
      str_defs Let_def)

lemma find_female:
  "find_label_position (fi_label cand_female) [pos_male, pos_female, pos_name] {0} = Some (1, pos_female)"
  by (simp add: find_label_position_def label_clean_of_def cand_female_def flp_step_def scan_clean
      str_defs Let_def)

lemma find_name:
  "find_label_position (fi_label cand_name) [pos_male, pos_female, pos_name] {1, 0} = Some (2, pos_name)"
  by (simp add: find_label_position_def label_clean_of_def cand_name_def flp_step_def scan_clean
      str_defs Let_def)

lemma scan_kinds:
  "fi_type cand_male = Checkbox" "fi_type cand_female = Checkbox" "fi_type cand_name = Text"
  by (simp_all add: cand_male_def cand_female_def cand_name_def)

lemma scan_checkbox_fields:
  "checkbox_field_of pos_male = \<lparr>ftype = Checkbox, frect = Rect 38 50 49 70\<rparr>"
  "checkbox_field_of pos_female = \<lparr>ftype = Checkbox, frect = Rect 188 50 199 70\<rparr>"
  by (simp_all add: checkbox_field_of_def pos_male_def pos_female_def Rect_def)

lemma scan_text_field:
  "text_field_of 600 [pos_male, pos_female, pos_name] 2 pos_name =
     [\<lparr>ftype = Text, frect = Rect 152 150 352 170\<rparr>]"
  by (simp add: text_field_of_def limit_step_def pos_male_def pos_female_def pos_name_def Rect_def)

lemma scan_loop_bound:
  "ocr_loop_bound 600 [pos_male, pos_female, pos_name] [cand_male, cand_female, cand_name] =
     ([(0, \<lparr>ftype = Checkbox, frect = Rect 38 50 49 70\<rparr>),
       (1, \<lparr>ftype = Checkbox, frect = Rect 188 50 199 70\<rparr>),
       (2, \<lparr>ftype = Text, frect = Rect 152 150 352 170\<rparr>)], {2, 1, 0})"
  by (simp add: ocr_loop_bound_def ocr_step_bound_def find_male find_female [unfolded One_nat_def]
      find_name [unfolded One_nat_def] scan_kinds scan_checkbox_fields scan_text_field)

lemma scan_fields:
  "detect_fields_ocr scan_page scan_markdown =
     [\<lparr>ftype = Checkbox, frect = Rect 38 50 49 70\<rparr>,
      \<lparr>ftype = Checkbox, frect = Rect 188 50 199 70\<rparr>,
      \<lparr>ftype = Text, frect = Rect 152 150 352 170\<rparr>]"
proof -
  have w: "rect_width scan_page = 600" by (simp add: scan_page_def)
  have "fst (ocr_loop 600 [pos_male, pos_female, pos_name] [cand_male, cand_female, cand_name]) =
      map snd (fst (ocr_loop_bound 600 [pos_male, pos_female, pos_name] [cand_male, cand_female, cand_name]))"
    using ocr_loop_bound_erase by simp
  then show ?thesis
    by (simp add: detect_fields_ocr_def scan_candidates scan_positions w scan_loop_bound)
qed

subsection \<open>Position reuse\<close>

text \<open>
  C3. The fuzzy matcher never returns an index of the used set (and returns the position
  stored at the index it returns). In the loop of the OCR pipeline over the candidates of
  a page, recorded with the index each descriptor is built from, the used set is at every
  moment the set of the indices bound so far, and no index is bound twice: no two
  descriptors of a page are bound to the same text position. Erasing the recorded indices
  gives the descriptors and the used set of the program's loop.
\<close>

theorem ocr_positions_never_reused:
  "(find_label_position l ps used = Some (i, tp) \<longrightarrow> i \<notin> used \<and> i < length ps \<and> tp = ps ! i)
   \<and> map snd (fst (ocr_loop_bound pw ps ffs)) = fst (ocr_loop pw ps ffs)
   \<and> snd (ocr_loop_bound pw ps ffs) = snd (ocr_loop pw ps ffs)
   \<and> fst ` set (fst (ocr_loop_bound pw ps ffs)) = snd (ocr_loop pw ps ffs)
   \<and> distinct (map fst (fst (ocr_loop_bound pw ps ffs)))"
  using find_label_position_unused [of l ps used i tp] ocr_loop_bound_erase [of pw ps ffs]
    ocr_loop_bound_inv [of pw ps ffs]
  by simp

theorem ocr_positions_never_reused_witness:
  "find_label_position (fi_label cand_female) [pos_male, pos_female, pos_name] {0} = Some (1, pos_female)
   \<and> (1::nat) \<notin> {0}
   \<and> fst (ocr_loop_bound 600 [pos_male, pos_female, pos_name] [cand_male, cand_female, cand_name]) =
       [(0, \<lparr>ftype = Checkbox, frect = Rect 38 50 49 70\<rparr>),
        (1, \<lparr>ftype = Checkbox, frect = Rect 188 50 199 70\<rparr>),
        (2, \<lparr>ftype = Text, frect = Rect 152 150 352 170\<rparr>)]
   \<and> ocr_loop 600 [pos_male, pos_female, pos_name] [cand_male, cand_female, cand_name] =
       ([\<lparr>ftype = Checkbox, frect = Rect 38 50 49 70\<rparr>,
         \<lparr>ftype = Checkbox, frect = Rect 188 50 199 70\<rparr>,
         \<lparr>ftype = Text, frect = Rect 152 150 352 170\<rparr>], {2, 1, 0})
   \<and> distinct [0 :: nat, 1, 2]"
proof -
  note inst = ocr_positions_never_reused
    [of "fi_label cand_female" "[pos_male, pos_female, pos_name]" "{0}" 1 pos_female
        600 "[cand_male, cand_female, cand_name]"]
  from inst find_female have fresh: "(1::nat) \<notin> {0}" by blast
  from inst have "fst (ocr_loop 600 [pos_male, pos_female, pos_name] [cand_male, cand_female, cand_name]) =
       map snd (fst (ocr_loop_bound 600 [pos_male, pos_female, pos_name] [cand_male, cand_female, cand_name]))"
    and "snd (ocr_loop 600 [pos_male, pos_female, pos_name] [cand_male, cand_female, cand_name]) =
       snd (ocr_loop_bound 600 [pos_male, pos_female, pos_name] [cand_male, cand_female, cand_name])"
    by simp_all
  then have loop: "ocr_loop 600 [pos_male, pos_female, pos_name] [cand_male, cand_female, cand_name] =
       ([\<lparr>ftype = Checkbox, frect = Rect 38 50 49 70\<rparr>,
         \<lparr>ftype = Checkbox, frect = Rect 188 50 199 70\<rparr>,
         \<lparr>ftype = Text, frect = Rect 152 150 352 170\<rparr>], {2, 1, 0})"
    by (simp add: scan_loop_bound prod_eq_iff)
  from inst have "distinct (map fst (fst (ocr_loop_bound 600 [pos_male, pos_female, pos_name]
      [cand_male, cand_female, cand_name])))"
    by blast
  then have "distinct [0 :: nat, 1, 2]" by (simp add: scan_loop_bound)
  with fresh loop find_female scan_loop_bound show ?thesis by simp
qed

subsection \<open>Orchestrator\<close>

lemma extract_empty: "extract_form_fields_from_markdown [] = []"
  by (simp add: extract_form_fields_from_markdown_def py_split_sep_def py_replace1_def
      line_fields_def py_strip_def py_lstrip_def py_rstrip_def)

lemma detect_fields_ocr_empty: "detect_fields_ocr pg [] = []"
  by (simp add: detect_fields_ocr_def extract_empty ocr_loop_def)

lemma dedup_Nil: "dedup [] = []"
  by (simp add: dedup_def)

lemma page_fields_native:
  "get_page_text_blocks pg \<noteq> [] \<Longrightarrow> page_fields pg n mps = dedup (native_fields pg)"
  by (simp add: page_fields_def)

lemma page_fields_ocr:
  assumes "get_page_text_blocks pg = []" "find (\<lambda>mp. mp_index mp = int n) pages = Some mp"
  shows "page_fields pg n (Some pages) = dedup (detect_fields_ocr pg (mp_markdown mp))"
  using assms by (auto simp: page_fields_def ocr_fields_def detect_fields_ocr_empty Let_def)

lemma page_fields_none:
  assumes "get_page_text_blocks pg = []"
    and "mps = None \<or> (\<exists>pages. mps = Some pages \<and> find (\<lambda>mp. mp_index mp = int n) pages = None)"
  shows "page_fields pg n mps = []"
  using assms by (auto simp: page_fields_def ocr_fields_def dedup_Nil Let_def)

text \<open>
  C1. For a page of the document, \<open>detect_fields\<close> follows exactly one strategy. With at
  least one native text block it returns (deduplicated) the checkbox locations, then the
  underscore fields, then the label fields only when there is no underscore field. With no
  native text block and a remote OCR page of the same index (the first such page), it
  returns (deduplicated) what the OCR pipeline gives on that page's markup; when that
  markup is empty the program skips the pipeline, whose result on empty markup is empty as
  well. In every other case the page yields no field.
\<close>

theorem detect_fields_strategy:
  "page_num < length doc \<longrightarrow>
     (get_page_text_blocks (doc ! page_num) \<noteq> [] \<longrightarrow>
        detect_fields doc page_num mps =
          Inr (dedup (map (\<lambda>loc. \<lparr>ftype = Checkbox, frect = loc\<rparr>)
                          (find_checkbox_locations (doc ! page_num))
                      @ find_underscore_fields (doc ! page_num)
                      @ (if find_underscore_fields (doc ! page_num) = []
                         then find_label_fields (doc ! page_num) else []))))
     \<and> (get_page_text_blocks (doc ! page_num) = [] \<and> mps = Some pages
          \<and> find (\<lambda>mp. mp_index mp = int page_num) pages = Some mp \<longrightarrow>
        detect_fields doc page_num mps =
          Inr (dedup (detect_fields_ocr (doc ! page_num) (mp_markdown mp))))
     \<and> (get_page_text_blocks (doc ! page_num) = []
          \<and> (mps = None \<or> (\<exists>pages. mps = Some pages
                \<and> find (\<lambda>mp. mp_index mp = int page_num) pages = None)) \<longrightarrow>
        detect_fields doc page_num mps = Inr [])"
  using page_fields_native [of "doc ! page_num" page_num mps]
    page_fields_ocr [of "doc ! page_num" page_num pages mp]
    page_fields_none [of "doc ! page_num" mps page_num]
  by (simp add: detect_fields_def native_fields_def Let_def)

subsection \<open>Underscore merger\<close>

lemma merge_runs_Nil: "merge_runs [] = []"
  by (simp add: merge_runs_def)

lemma merge_step_Nil: "merge_step [] inst = [inst]"
  by (simp add: merge_step_def)

lemma merge_step_snoc:
  "merge_step (merged @ [cur]) inst =
     (if \<bar>y0 inst - y0 cur\<bar> < 3 \<and> x0 inst < x1 cur + 5
      then merged @ [Rect (min (x0 cur) (x0 inst)) (min (y0 cur) (y0 inst))
                          (max (x1 cur) (x1 inst)) (max (y1 cur) (y1 inst))]
      else merged @ [cur, inst])"
  by (simp add: merge_step_def)

lemma find_underscore_fields_eq:
  "find_underscore_fields pg = map underscore_field (merge_runs (search_for pg (U ''___'')))"
  by (simp add: find_underscore_fields_def Let_def merge_runs_Nil)

lemma text_page_underscores:
  "find_underscore_fields text_page = [\<lparr>ftype = Text, frect = Rect 90 100 135 114\<rparr>]"
  by (simp add: find_underscore_fields_def text_page_def merge_runs_def merge_step_def
      underscore_field_def Rect_def)

lemma wide_gap_underscores:
  "find_underscore_fields wide_gap_page =
     [\<lparr>ftype = Text, frect = Rect 50 100 80 114\<rparr>, \<lparr>ftype = Text, frect = Rect 86 100 120 114\<rparr>]"
  by (simp add: find_underscore_fields_def wide_gap_page_def merge_runs_def merge_step_def
      underscore_field_def Rect_def)

text \<open>
  C4, as amended. The underscore merger returns nothing when the search for three
  underscores finds nothing. Otherwise it sorts the instances by (top, left) and goes
  through them in that order, keeping a list of merged rectangles: the next instance is
  merged into the last merged rectangle (which becomes the bounding box of the two)
  exactly when their tops differ by less than 3 and the left edge of the instance is less
  than 5 to the right of the right edge of the merged rectangle; otherwise it starts a new
  rectangle. The test on the left edge is one-sided: an instance that starts anywhere
  further left merges as well. So an instance that starts 4 beyond the right edge of the
  merged rectangle merges, and one that starts 6 beyond it does not. Each merged
  rectangle becomes a Text descriptor with its bottom edge 2 lower.
\<close>

theorem underscore_merge:
  "(search_for pg (U ''___'') = [] \<longrightarrow> find_underscore_fields pg = [])
   \<and> find_underscore_fields pg =
       map (\<lambda>m. \<lparr>ftype = Text, frect = Rect (x0 m) (y0 m) (x1 m) (y1 m + 2)\<rparr>)
           (foldl merge_step [] (sort_key (\<lambda>r. (y0 r, x0 r)) (search_for pg (U ''___''))))
   \<and> sorted (map (\<lambda>r. (y0 r, x0 r)) (sort_key (\<lambda>r. (y0 r, x0 r)) instances))
   \<and> mset (sort_key (\<lambda>r. (y0 r, x0 r)) instances) = mset instances
   \<and> merge_step [] inst = [inst]
   \<and> merge_step (merged @ [cur]) inst =
       (if \<bar>y0 inst - y0 cur\<bar> < 3 \<and> x0 inst < x1 cur + 5
        then merged @ [Rect (min (x0 cur) (x0 inst)) (min (y0 cur) (y0 inst))
                            (max (x1 cur) (x1 inst)) (max (y1 cur) (y1 inst))]
        else merged @ [cur, inst])
   \<and> (y0 inst = y0 cur \<and> x0 inst = x1 cur + 4 \<longrightarrow>
        merge_step [cur] inst = [Rect (min (x0 cur) (x0 inst)) (y0 cur)
                                      (max (x1 cur) (x1 inst)) (max (y1 cur) (y1 inst))])
   \<and> (x0 inst = x1 cur + 6 \<longrightarrow> merge_step [cur] inst = [cur, inst])"
proof (intro conjI)
  show "search_for pg (U ''___'') = [] \<longrightarrow> find_underscore_fields pg = []"
    by (simp add: find_underscore_fields_def)
  show "find_underscore_fields pg =
       map (\<lambda>m. \<lparr>ftype = Text, frect = Rect (x0 m) (y0 m) (x1 m) (y1 m + 2)\<rparr>)
           (foldl merge_step [] (sort_key (\<lambda>r. (y0 r, x0 r)) (search_for pg (U ''___''))))"
    using find_underscore_fields_eq [of pg]
    by (simp add: merge_runs_def underscore_field_def [abs_def])
  show "sorted (map (\<lambda>r. (y0 r, x0 r)) (sort_key (\<lambda>r. (y0 r, x0 r)) instances))"
    by (rule sorted_sort_key)
  show "mset (sort_key (\<lambda>r. (y0 r, x0 r)) instances) = mset instances"
    by simp
  show "merge_step [] inst = [inst]" by (rule merge_step_Nil)
  show "merge_step (merged @ [cur]) inst =
       (if \<bar>y0 inst - y0 cur\<bar> < 3 \<and> x0 inst < x1 cur + 5
        then merged @ [Rect (min (x0 cur) (x0 inst)) (min (y0 cur) (y0 inst))
                            (max (x1 cur) (x1 inst)) (max (y1 cur) (y1 inst))]
        else merged @ [cur, inst])"
    by (rule merge_step_snoc)
  show "y0 inst = y0 cur \<and> x0 inst = x1 cur + 4 \<longrightarrow>
        merge_step [cur] inst = [Rect (min (x0 cur) (x0 inst)) (y0 cur)
                                      (max (x1 cur) (x1 inst)) (max (y1 cur) (y1 inst))]"
    using merge_step_snoc [of "[]" cur inst] by simp
  show "x0 inst = x1 cur + 6 \<longrightarrow> merge_step [cur] inst = [cur, inst]"
    using merge_step_snoc [of "[]" cur inst] by simp
qed

theorem underscore_merge_witness:
  "search_for scan_page (U ''___'') = [] \<and> find_underscore_fields scan_page = []
   \<and> search_for text_page (U ''___'') = [Rect 120 100 135 112, Rect 90 100 120 112]
   \<and> sort_key (\<lambda>r. (y0 r, x0 r)) [Rect 120 100 135 112, Rect 90 100 120 112]
       = [Rect 90 100 120 112, Rect 120 100 135 112]
   \<and> find_underscore_fields text_page = [\<lparr>ftype = Text, frect = Rect 90 100 135 114\<rparr>]
   \<and> merge_step [Rect 50 100 80 112] (Rect 84 100 120 112) = [Rect 50 100 120 112]
   \<and> merge_step [Rect 50 100 80 112] (Rect 86 100 120 112)
       = [Rect 50 100 80 112, Rect 86 100 120 112]
   \<and> find_underscore_fields wide_gap_page =
       [\<lparr>ftype = Text, frect = Rect 50 100 80 114\<rparr>, \<lparr>ftype = Text, frect = Rect 86 100 120 114\<rparr>]"
proof -
  have s0: "search_for scan_page (U ''___'') = []" by (simp add: scan_page_def)
  have s1: "search_for text_page (U ''___'') = [Rect 120 100 135 112, Rect 90 100 120 112]"
    by (simp add: text_page_def)
  have srt: "sort_key (\<lambda>r. (y0 r, x0 r)) [Rect 120 100 135 112, Rect 90 100 120 112]
       = [Rect 90 100 120 112, Rect 120 100 135 112]"
    by (simp add: Rect_def)
  from underscore_merge [of scan_page] s0 have e: "find_underscore_fields scan_page = []"
    by blast
  have m4: "merge_step [Rect 50 100 80 112] (Rect 84 100 120 112) = [Rect 50 100 120 112]"
    using underscore_merge [where cur = "Rect 50 100 80 112" and inst = "Rect 84 100 120 112"]
    by (simp add: Rect_def)
  have m6: "merge_step [Rect 50 100 80 112] (Rect 86 100 120 112)
       = [Rect 50 100 80 112, Rect 86 100 120 112]"
    using underscore_merge [where cur = "Rect 50 100 80 112" and inst = "Rect 86 100 120 112"]
    by (simp add: Rect_def)
  from s0 s1 srt e m4 m6 text_page_underscores wide_gap_underscores show ?thesis by simp
qed

text \<open>
  C4, as first stated, fails: the two runs of \<open>skew_page\<close> are 6 apart horizontally, the
  right one half a unit higher. It sorts first, the left run then starts left of its right
  edge, and the two merge.
\<close>

theorem underscore_merge_counterexample:
  "search_for skew_page (U ''___'') = [Rect 50 (201 / 2) 80 (225 / 2), Rect 86 100 120 112]
   \<and> x0 (Rect 86 100 120 112) - x1 (Rect 50 (201 / 2) 80 (225 / 2)) = 6
   \<and> \<bar>y0 (Rect 86 100 120 112) - y0 (Rect 50 (201 / 2) 80 (225 / 2))\<bar> < 3
   \<and> merge_runs [Rect 50 (201 / 2) 80 (225 / 2), Rect 86 100 120 112]
       = [Rect 50 100 120 (225 / 2)]
   \<and> find_underscore_fields skew_page = [\<lparr>ftype = Text, frect = Rect 50 100 120 (229 / 2)\<rparr>]"
  by (simp add: find_underscore_fields_def skew_page_def merge_runs_def merge_step_def
      underscore_field_def Rect_def)

subsection \<open>The native pages of the examples, evaluated\<close>

lemmas label_defs = label_pattern_def label_class_def rx_item_match_def findall_labels_def

lemmas rect_defs = Rect_def width_def height_def intersects_def is_empty_def

lemma text_page_blocks: "get_page_text_blocks text_page = [\<lparr>block_type = 0, block_lines = [name_line]\<rparr>]"
  by (simp add: get_page_text_blocks_def text_page_def)

lemma label_page_blocks: "get_page_text_blocks label_page = [\<lparr>block_type = 0, block_lines = [name_line]\<rparr>]"
  by (simp add: get_page_text_blocks_def label_page_def)

lemma scan_page_blocks: "get_page_text_blocks scan_page = []"
  by (simp add: get_page_text_blocks_def scan_page_def)

lemma text_page_checkboxes: "find_checkbox_locations text_page = []"
  by (simp add: find_checkbox_locations_def text_page_def CHECKBOX_CHARS_def CHECKBOX_ENCODED_def U_def)

lemma label_page_checkboxes: "find_checkbox_locations label_page = []"
  by (simp add: find_checkbox_locations_def label_page_def CHECKBOX_CHARS_def CHECKBOX_ENCODED_def U_def)

lemma label_page_underscores: "find_underscore_fields label_page = []"
  by (simp add: find_underscore_fields_def label_page_def U_def)

lemma name_line_text: "line_text name_line = U ''Name: ______''"
  by (simp add: line_text_def name_line_def str_defs)

lemma name_line_labels: "findall_labels (U ''Name: ______'') = [U ''Name'']"
  by (simp add: label_defs str_defs)

lemma label_page_name:
  "label_fields_of_label label_page name_line (U ''Name'') = [\<lparr>ftype = Text, frect = Rect 87 100 237 112\<rparr>]"
  by (simp add: label_fields_of_label_def label_page_def name_line_def label_field_of_def str_defs Rect_def)

lemma label_page_labels: "find_label_fields label_page = [\<lparr>ftype = Text, frect = Rect 87 100 237 112\<rparr>]"
  by (simp add: find_label_fields_def label_page_blocks label_fields_of_line_def name_line_text
      name_line_labels label_page_name)

lemma dedup_one: "dedup [\<lparr>ftype = Text, frect = Rect 90 100 135 114\<rparr>] = [\<lparr>ftype = Text, frect = Rect 90 100 135 114\<rparr>]"
  by (simp add: dedup_def dedup_step_def rect_defs)

lemma dedup_label: "dedup [\<lparr>ftype = Text, frect = Rect 87 100 237 112\<rparr>] = [\<lparr>ftype = Text, frect = Rect 87 100 237 112\<rparr>]"
  by (simp add: dedup_def dedup_step_def rect_defs)

lemma dedup_scan:
  "dedup [\<lparr>ftype = Checkbox, frect = Rect 38 50 49 70\<rparr>,
          \<lparr>ftype = Checkbox, frect = Rect 188 50 199 70\<rparr>,
          \<lparr>ftype = Text, frect = Rect 152 150 352 170\<rparr>] =
     [\<lparr>ftype = Checkbox, frect = Rect 38 50 49 70\<rparr>,
      \<lparr>ftype = Checkbox, frect = Rect 188 50 199 70\<rparr>,
      \<lparr>ftype = Text, frect = Rect 152 150 352 170\<rparr>]"
  by (simp add: dedup_def dedup_step_def rect_defs)

theorem detect_fields_strategy_witness:
  "detect_fields [text_page, scan_page, label_page] 0 None
     = Inr [\<lparr>ftype = Text, frect = Rect 90 100 135 114\<rparr>]
   \<and> detect_fields [text_page, scan_page, label_page] 2 (Some [scan_ocr_page])
     = Inr [\<lparr>ftype = Text, frect = Rect 87 100 237 112\<rparr>]
   \<and> detect_fields [text_page, scan_page, label_page] 1 (Some [other_ocr_page, scan_ocr_page])
     = Inr [\<lparr>ftype = Checkbox, frect = Rect 38 50 49 70\<rparr>,
            \<lparr>ftype = Checkbox, frect = Rect 188 50 199 70\<rparr>,
            \<lparr>ftype = Text, frect = Rect 152 150 352 170\<rparr>]
   \<and> detect_fields [text_page, scan_page, label_page] 1 None = Inr []
   \<and> detect_fields [text_page, scan_page, label_page] 1 (Some [other_ocr_page]) = Inr []"
proof -
  let ?doc = "[text_page, scan_page, label_page]"
  have f1: "find (\<lambda>mp. mp_index mp = int 1) [other_ocr_page, scan_ocr_page] = Some scan_ocr_page"
    by (simp add: other_ocr_page_def scan_ocr_page_def)
  have f0: "find (\<lambda>mp. mp_index mp = int 1) [other_ocr_page] = None"
    by (simp add: other_ocr_page_def)
  have md: "mp_markdown scan_ocr_page = scan_markdown" by (simp add: scan_ocr_page_def)
  have a: "detect_fields ?doc 0 None = Inr [\<lparr>ftype = Text, frect = Rect 90 100 135 114\<rparr>]"
    using detect_fields_strategy [of 0 ?doc None]
    by (simp add: text_page_blocks text_page_checkboxes text_page_underscores dedup_one)
  have b: "detect_fields ?doc 2 (Some [scan_ocr_page]) = Inr [\<lparr>ftype = Text, frect = Rect 87 100 237 112\<rparr>]"
    using detect_fields_strategy [of 2 ?doc "Some [scan_ocr_page]"]
    by (simp add: label_page_blocks label_page_checkboxes label_page_underscores label_page_labels
        dedup_label)
  have c: "detect_fields ?doc 1 (Some [other_ocr_page, scan_ocr_page])
     = Inr [\<lparr>ftype = Checkbox, frect = Rect 38 50 49 70\<rparr>,
            \<lparr>ftype = Checkbox, frect = Rect 188 50 199 70\<rparr>,
            \<lparr>ftype = Text, frect = Rect 152 150 352 170\<rparr>]"
    using detect_fields_strategy
      [of 1 ?doc "Some [other_ocr_page, scan_ocr_page]" "[other_ocr_page, scan_ocr_page]" scan_ocr_page] f1
    by (simp add: scan_page_blocks md scan_fields dedup_scan)
  have d: "detect_fields ?doc 1 None = Inr []"
    using detect_fields_strategy [of 1 ?doc None] by (simp add: scan_page_blocks)
  have e: "detect_fields ?doc 1 (Some [other_ocr_page]) = Inr []"
    using detect_fields_strategy [of 1 ?doc "Some [other_ocr_page]"] f0
    by (simp add: scan_page_blocks)
  from a b c d e show ?thesis by simp
qed

subsection \<open>Conversion driver\<close>

lemma needs_ocr_iff:
  "list_ex (\<lambda>i. length (get_page_text_blocks (doc ! i)) = 0) [0..<length doc]
     \<longleftrightarrow> (\<exists>i<length doc. get_page_text_blocks (doc ! i) = [])"
  by (auto simp: list_ex_iff)

lemma convert_pages_eq:
  assumes "\<forall>i\<in>set is. i < length doc"
  shows "convert_pages doc mps is st =
     Inr (fst st + sum_list (map (\<lambda>i. length (page_fields (doc ! i) i mps)) is),
          snd st @ concat (map (\<lambda>i. map (\<lambda>(j, f). (i, make_widget i j f))
                                        (enumerate 0 (page_fields (doc ! i) i mps))) is))"
  using assms
proof (induction "is" arbitrary: st)
  case Nil
  show ?case by simp
next
  case (Cons i "is")
  then have "i < length doc" and rest: "\<forall>i\<in>set is. i < length doc" by simp_all
  then have d: "detect_fields doc i mps = Inr (page_fields (doc ! i) i mps)"
    by (simp add: detect_fields_def)
  show ?case
    by (simp add: d Cons.IH [OF rest] add.assoc)
qed

lemma convert_eq:
  "convert doc ocr =
     (let mps = (if (\<exists>i<length doc. get_page_text_blocks (doc ! i) = [])
                 then (case ocr of Inr pages \<Rightarrow> Some pages | Inl e \<Rightarrow> None) else None)
      in Inr \<lparr>total_fields = sum_list (map (\<lambda>i. length (page_fields (doc ! i) i mps)) [0..<length doc]),
              widgets = concat (map (\<lambda>i. map (\<lambda>(j, f). (i, make_widget i j f))
                                            (enumerate 0 (page_fields (doc ! i) i mps)))
                                    [0..<length doc]),
              printed = (if (\<exists>i<length doc. get_page_text_blocks (doc ! i) = [])
                         then (case ocr of Inr pages \<Rightarrow> [] | Inl e \<Rightarrow> [''Mistral OCR failed: '' @ e])
                         else [])\<rparr>)"
proof -
  have all: "\<forall>i\<in>set [0..<length doc]. i < length doc" by simp
  show ?thesis
  proof (cases "\<exists>i<length doc. get_page_text_blocks (doc ! i) = []")
    case True
    then have c: "(\<exists>i<length doc. get_page_text_blocks (doc ! i) = []) = True" by simp
    show ?thesis
      unfolding convert_def needs_ocr_iff c
      by (cases ocr) (simp_all add: convert_pages_eq [OF all] Let_def)
  next
    case False
    then have c: "(\<exists>i<length doc. get_page_text_blocks (doc ! i) = []) = False" by simp
    show ?thesis
      unfolding convert_def needs_ocr_iff c
      by (simp add: convert_pages_eq [OF all] Let_def)
  qed
qed

lemma page_fields_scanned_none: "get_page_text_blocks pg = [] \<Longrightarrow> page_fields pg i None = []"
  by (simp add: page_fields_none)

lemma page_fields_native_same:
  "get_page_text_blocks pg \<noteq> [] \<Longrightarrow> page_fields pg i None = page_fields pg i (Some pages)"
  by (simp add: page_fields_native)

text \<open>
  C8. Whatever the outcome of the remote OCR call, \<open>convert\<close> completes and returns a
  count. When the call is made (some page has no native text block) and fails with
  message \<open>e\<close>, the failure is printed, every page is processed with no remote page data,
  and the count returned is the number of fields found that way: a page with no native
  text block yields no field, and a page with native text yields what it yields when the
  call succeeds.
\<close>

theorem convert_survives_ocr_failure:
  "(\<exists>c. convert doc ocr = Inr c)
   \<and> ((\<exists>i<length doc. get_page_text_blocks (doc ! i) = []) \<longrightarrow>
        convert doc (Inl e) =
          Inr \<lparr>total_fields = sum_list (map (\<lambda>i. length (page_fields (doc ! i) i None)) [0..<length doc]),
               widgets = concat (map (\<lambda>i. map (\<lambda>(j, f). (i, make_widget i j f))
                                             (enumerate 0 (page_fields (doc ! i) i None)))
                                     [0..<length doc]),
               printed = [''Mistral OCR failed: '' @ e]\<rparr>)
   \<and> (i < length doc \<longrightarrow> detect_fields doc i None = Inr (page_fields (doc ! i) i None))
   \<and> (get_page_text_blocks pg = [] \<longrightarrow> page_fields pg i None = [])
   \<and> (get_page_text_blocks pg \<noteq> [] \<longrightarrow> page_fields pg i None = page_fields pg i (Some pages))"
  using page_fields_scanned_none [of pg i] page_fields_native_same [of pg i pages]
  by (simp add: convert_eq [of doc] Let_def detect_fields_def)

lemma text_page_fields:
  "page_fields text_page 0 mps = [\<lparr>ftype = Text, frect = Rect 90 100 135 114\<rparr>]"
  by (simp add: page_fields_native text_page_blocks native_fields_def text_page_checkboxes
      text_page_underscores dedup_one)

lemma label_page_fields:
  "page_fields label_page 2 mps = [\<lparr>ftype = Text, frect = Rect 87 100 237 112\<rparr>]"
  by (simp add: page_fields_native label_page_blocks native_fields_def label_page_checkboxes
      label_page_underscores label_page_labels dedup_label)

lemma scan_page_fields_none: "page_fields scan_page 1 None = []"
  by (simp add: page_fields_none scan_page_blocks)

lemma scan_page_fields_some:
  "page_fields scan_page 1 (Some [other_ocr_page, scan_ocr_page]) =
     [\<lparr>ftype = Checkbox, frect = Rect 38 50 49 70\<rparr>,
      \<lparr>ftype = Checkbox, frect = Rect 188 50 199 70\<rparr>,
      \<lparr>ftype = Text, frect = Rect 152 150 352 170\<rparr>]"
proof -
  have "find (\<lambda>mp. mp_index mp = int 1) [other_ocr_page, scan_ocr_page] = Some scan_ocr_page"
    by (simp add: other_ocr_page_def scan_ocr_page_def)
  from page_fields_ocr [OF scan_page_blocks this] show ?thesis
    by (simp add: scan_ocr_page_def scan_fields dedup_scan)
qed

lemma widget_names: "str_nat (Suc 0) = ''1''" "str_nat 3 = ''3''"
  by simp_all

theorem convert_survives_ocr_failure_witness:
  "get_page_text_blocks ([text_page, scan_page, label_page] ! 1) = []
   \<and> get_page_text_blocks ([text_page, scan_page, label_page] ! 0) \<noteq> []
   \<and> convert [text_page, scan_page, label_page] (Inl ''timeout'') =
       Inr \<lparr>total_fields = 2,
            widgets =
              [(0, \<lparr>w_rect = Rect 90 100 135 114, w_field_name = ''page1_field1'',
                     w_field_type = Text, w_field_flags = Some 0\<rparr>),
               (2, \<lparr>w_rect = Rect 87 100 237 112, w_field_name = ''page3_field1'',
                     w_field_type = Text, w_field_flags = Some 0\<rparr>)],
            printed = [''Mistral OCR failed: timeout'']\<rparr>
   \<and> detect_fields [text_page, scan_page, label_page] 1 None = Inr []
   \<and> page_fields text_page 0 None = page_fields text_page 0 (Some [other_ocr_page, scan_ocr_page])
   \<and> (\<exists>c. convert [text_page, scan_page, label_page] (Inr [other_ocr_page, scan_ocr_page]) = Inr c)"
proof -
  let ?doc = "[text_page, scan_page, label_page]"
  note inst = convert_survives_ocr_failure
    [of ?doc "Inr [other_ocr_page, scan_ocr_page]" "''timeout''" 1 scan_page]
  note inst0 = convert_survives_ocr_failure [where pg = text_page and i = 0 and pages = "[other_ocr_page, scan_ocr_page]"]
  have scanned: "get_page_text_blocks (?doc ! 1) = []" by (simp add: scan_page_blocks)
  have native: "get_page_text_blocks (?doc ! 0) \<noteq> []" by (simp add: text_page_blocks)
  have ex: "\<exists>i<length ?doc. get_page_text_blocks (?doc ! i) = []"
    using scanned by (intro exI [of _ 1]) simp
  have upt: "[0..<length ?doc] = [0, 1, 2]" by (simp add: upt_rec)
  from inst ex have "convert ?doc (Inl ''timeout'') =
          Inr \<lparr>total_fields = sum_list (map (\<lambda>i. length (page_fields (?doc ! i) i None)) [0..<length ?doc]),
               widgets = concat (map (\<lambda>i. map (\<lambda>(j, f). (i, make_widget i j f))
                                             (enumerate 0 (page_fields (?doc ! i) i None)))
                                     [0..<length ?doc]),
               printed = [''Mistral OCR failed: '' @ ''timeout'']\<rparr>"
    by blast
  then have conv: "convert ?doc (Inl ''timeout'') =
       Inr \<lparr>total_fields = 2,
            widgets =
              [(0, \<lparr>w_rect = Rect 90 100 135 114, w_field_name = ''page1_field1'',
                     w_field_type = Text, w_field_flags = Some 0\<rparr>),
               (2, \<lparr>w_rect = Rect 87 100 237 112, w_field_name = ''page3_field1'',
                     w_field_type = Text, w_field_flags = Some 0\<rparr>)],
            printed = [''Mistral OCR failed: timeout'']\<rparr>"
    unfolding upt
    by (simp add: text_page_fields scan_page_fields_none [unfolded One_nat_def] label_page_fields
        make_widget_def widget_names del: str_nat.simps)
  from inst have d: "detect_fields ?doc 1 None = Inr []"
    by (simp add: scan_page_blocks)
  from inst0 native have same: "page_fields text_page 0 None = page_fields text_page 0 (Some [other_ocr_page, scan_ocr_page])"
    by (simp add: text_page_blocks)
  from inst have "\<exists>c. convert ?doc (Inr [other_ocr_page, scan_ocr_page]) = Inr c" by blast
  with scanned native conv d same show ?thesis by blast
qed

subsection \<open>Checkbox extraction\<close>

lemma strip_decompose:
  "\<exists>w w'. q = w @ py_strip q @ w' \<and> (\<forall>c\<in>set w. py_isspace c) \<and> (\<forall>c\<in>set w'. py_isspace c)"
proof -
  let ?d = "dropWhile py_isspace q"
  let ?t = "takeWhile py_isspace (rev ?d)"
  have "rev ?d = ?t @ dropWhile py_isspace (rev ?d)" by simp
  then have "rev (rev ?d) = rev (?t @ dropWhile py_isspace (rev ?d))" by (rule arg_cong)
  then have d: "?d = py_strip q @ rev ?t"
    by (simp add: py_strip_def py_rstrip_def py_lstrip_def del: takeWhile_dropWhile_id)
  have "q = takeWhile py_isspace q @ ?d" by simp
  with d have "q = takeWhile py_isspace q @ py_strip q @ rev ?t" by simp
  moreover have "\<forall>c\<in>set (takeWhile py_isspace q). py_isspace c"
    by (auto dest: set_takeWhileD)
  moreover have "\<forall>c\<in>set (rev ?t). py_isspace c"
    by (auto dest: set_takeWhileD)
  ultimately show ?thesis by blast
qed

lemma strip_sublist: "sublist (py_strip q) q"
proof -
  from strip_decompose [of q] obtain w w' where "q = w @ py_strip q @ w'" by blast
  then show ?thesis unfolding sublist_def by blast
qed

lemma strip_leading:
  "\<forall>c\<in>set w. py_isspace c \<Longrightarrow> py_strip (w @ q) = py_strip q"
  by (simp add: py_strip_def py_lstrip_def dropWhile_append2)

lemma split_first:
  assumes "g \<noteq> []"
  shows "(\<not> sublist g s \<longrightarrow> split_sep_acc g cur s = [cur @ s]) \<and>
         (sublist g s \<longrightarrow>
            (\<exists>q r. s = q @ g @ r \<and> \<not> sublist g q \<and> length r < length s
                   \<and> split_sep_acc g cur s = (cur @ q) # split_sep_acc g [] r))"
proof (induction s arbitrary: cur)
  case Nil
  with assms show ?case by simp
next
  case (Cons c cs)
  show ?case
  proof (cases "prefix g (c # cs)")
    case True
    then obtain r where r: "c # cs = g @ r" by (auto simp: prefix_def)
    from assms obtain a g' where g: "g = a # g'" by (cases g) auto
    with r have cs: "cs = g' @ r" by simp
    have dr: "drop (length g - 1) cs = r" using g cs by simp
    have sub: "sublist g (c # cs)" using True by (rule prefix_imp_sublist)
    have nil: "\<not> sublist g []" using assms by simp
    from r have "length (c # cs) = length g + length r" by (metis length_append)
    with g have len: "length r < length (c # cs)" by simp
    have eq: "split_sep_acc g cur (c # cs) = (cur @ []) # split_sep_acc g [] r"
      using True assms dr by simp
    have dec: "c # cs = [] @ g @ r" using r by simp
    from dec nil len eq have "\<exists>q r. c # cs = q @ g @ r \<and> \<not> sublist g q \<and> length r < length (c # cs)
                   \<and> split_sep_acc g cur (c # cs) = (cur @ q) # split_sep_acc g [] r"
      by blast
    with sub show ?thesis by blast
  next
    case False
    then have iff: "sublist g (c # cs) \<longleftrightarrow> sublist g cs"
      by (simp add: sublist_Cons_right)
    have step: "split_sep_acc g cur (c # cs) = split_sep_acc g (cur @ [c]) cs"
      using False by simp
    show ?thesis
    proof (intro conjI impI)
      assume "\<not> sublist g (c # cs)"
      with iff Cons.IH [of "cur @ [c]"] step show "split_sep_acc g cur (c # cs) = [cur @ c # cs]"
        by simp
    next
      assume "sublist g (c # cs)"
      with iff Cons.IH [of "cur @ [c]"] obtain q r where
        qr: "cs = q @ g @ r" "\<not> sublist g q" "length r < length cs"
          "split_sep_acc g (cur @ [c]) cs = (cur @ [c] @ q) # split_sep_acc g [] r"
        by auto
      have "\<not> sublist g (c # q)"
      proof
        assume "sublist g (c # q)"
        with qr(2) have "prefix g (c # q)" by (simp add: sublist_Cons_right)
        then obtain z where "c # q = g @ z" by (auto simp: prefix_def)
        then have "c # cs = g @ (z @ g @ r)" using qr(1) by simp
        then have "prefix g (c # cs)" by (rule prefixI)
        with False show False by simp
      qed
      with qr step show "\<exists>q r. c # cs = q @ g @ r \<and> \<not> sublist g q \<and> length r < length (c # cs)
                   \<and> split_sep_acc g cur (c # cs) = (cur @ q) # split_sep_acc g [] r"
        by (intro exI [of _ "c # q"] exI [of _ r]) simp
    qed
  qed
qed

lemma py_split_sep_cases:
  assumes "g \<noteq> []"
  shows "(\<not> py_in g s \<longrightarrow> py_split_sep g s = [s]) \<and>
         (py_in g s \<longrightarrow>
            (\<exists>q r. s = q @ g @ r \<and> \<not> py_in g q \<and> length r < length s
                   \<and> py_split_sep g s = q # py_split_sep g r))"
  using split_first [OF assms, of s "[]"] by (simp add: py_split_sep_def py_in_def)

lemma py_split_sep_join:
  assumes "g \<noteq> []"
  shows "join_sep g (py_split_sep g s) = s \<and> py_split_sep g s \<noteq> []
         \<and> (\<forall>p\<in>set (py_split_sep g s). \<not> py_in g p)"
proof (induction s rule: length_induct)
  case (1 s)
  show ?case
  proof (cases "py_in g s")
    case False
    with py_split_sep_cases [OF assms, of s] show ?thesis by simp
  next
    case True
    with py_split_sep_cases [OF assms, of s] obtain q r where
      qr: "s = q @ g @ r" "\<not> py_in g q" "length r < length s"
        "py_split_sep g s = q # py_split_sep g r"
      by auto
    from 1 qr(3) have ih: "join_sep g (py_split_sep g r) = r" "py_split_sep g r \<noteq> []"
      "\<forall>p\<in>set (py_split_sep g r). \<not> py_in g p"
      by auto
    from ih(2) obtain p ps where ps: "py_split_sep g r = p # ps" by (cases "py_split_sep g r") auto
    with ih(1) qr(1,4) have "join_sep g (py_split_sep g s) = s" by simp
    with qr ih show ?thesis by simp
  qed
qed

lemma cut_option_step:
  assumes g: "g \<noteq> []"
    and p: "prefix p part" "v = py_strip p"
    and follow: "p = part \<or> (\<exists>h\<in>set seen. prefix (p @ h) part)"
    and free: "\<forall>h\<in>set seen. \<not> py_in h v"
  shows "\<exists>p'. prefix p' part \<and> cut_option v g = py_strip p'
           \<and> (p' = part \<or> (\<exists>h\<in>set (seen @ [g]). prefix (p' @ h) part))
           \<and> (\<forall>h\<in>set (seen @ [g]). \<not> py_in h (cut_option v g))"
proof (cases "py_in g v")
  case False
  then have "cut_option v g = v" by (simp add: cut_option_def)
  with False p follow free show ?thesis by (intro exI [of _ p]) auto
next
  case True
  with py_split_sep_cases [OF g, of v] obtain q r where
    qr: "v = q @ g @ r" "\<not> py_in g q" "py_split_sep g v = q # py_split_sep g r"
    by auto
  from True qr(3) have cut: "cut_option v g = py_strip q" by (simp add: cut_option_def)
  from strip_decompose [of p] p(2) obtain w w' where
    w: "p = w @ v @ w'" "\<forall>c\<in>set w. py_isspace c"
    by blast
  let ?p' = "w @ q"
  have "p = (?p' @ g) @ (r @ w')" using w(1) qr(1) by simp
  then have "prefix (?p' @ g) p" by (rule prefixI)
  from this p(1) have pg: "prefix (?p' @ g) part" by (rule prefix_order.trans)
  then have pp: "prefix ?p' part" by (metis append_prefixD)
  have st: "py_strip ?p' = py_strip q" using w(2) by (rule strip_leading)
  have sub: "sublist (py_strip q) v"
  proof -
    have "sublist q v" unfolding qr(1) sublist_def by (intro exI [of _ "[]"] exI [of _ "g @ r"]) simp
    with strip_sublist [of q] show ?thesis by (rule sublist_order.order.trans)
  qed
  have f1: "\<forall>h\<in>set seen. \<not> py_in h (py_strip q)"
  proof
    fix h assume "h \<in> set seen"
    with free have "\<not> sublist h v" by (simp add: py_in_def)
    with sub show "\<not> py_in h (py_strip q)"
      unfolding py_in_def using sublist_order.order.trans by blast
  qed
  have f2: "\<not> py_in g (py_strip q)"
    using qr(2) strip_sublist [of q] unfolding py_in_def using sublist_order.order.trans by blast
  from pp pg st f1 f2 cut show ?thesis
    by (intro exI [of _ ?p']) auto
qed

lemma cut_option_fold:
  assumes "\<forall>g\<in>set gs. g \<noteq> []"
  shows "\<exists>p. prefix p part \<and> foldl cut_option (py_strip part) gs = py_strip p
           \<and> (p = part \<or> (\<exists>h\<in>set gs. prefix (p @ h) part))
           \<and> (\<forall>h\<in>set gs. \<not> py_in h (py_strip p))"
  using assms
proof (induction gs rule: rev_induct)
  case Nil
  show ?case by (intro exI [of _ part]) simp
next
  case (snoc g gs)
  then obtain p where p: "prefix p part" "foldl cut_option (py_strip part) gs = py_strip p"
    "p = part \<or> (\<exists>h\<in>set gs. prefix (p @ h) part)" "\<forall>h\<in>set gs. \<not> py_in h (py_strip p)"
    by auto
  from snoc.prems have g: "g \<noteq> []" by simp
  from cut_option_step [OF g p(1) refl p(3) p(4)] p(2) show ?case by auto
qed

lemma glyphs_nonempty: "\<forall>g\<in>set ALL_CB. g \<noteq> []"
  by (simp add: ALL_CB_def CHECKBOX_CHARS_def CHECKBOX_ENCODED_def)

lemma clean_option_trim:
  "\<exists>p. prefix p part \<and> (p = part \<or> (\<exists>g\<in>set ALL_CB. prefix (p @ g) part))
       \<and> (\<forall>g\<in>set ALL_CB. \<not> py_in g (py_strip p))
       \<and> clean_option part = py_strip (collapse_ws (py_strip p))"
  using cut_option_fold [OF glyphs_nonempty, of part] by (auto simp: clean_option_def)

lemma option_candidate_eq:
  "option_candidate part =
     (if 1 < length (clean_option part) \<and> length (clean_option part) < 60
      then [\<lparr>fi_type = Checkbox, fi_label = take 30 (clean_option part)\<rparr>] else [])"
  by (auto simp: option_candidate_def Let_def)

lemma line_checkboxes_eq:
  "line_checkboxes line =
     concat (map (\<lambda>cb. if py_in cb line
                        then concat (map option_candidate (drop 1 (py_split_sep cb line))) else [])
                 ALL_CB)"
  by (simp add: line_checkboxes_def checkbox_options_def [abs_def])

lemma split_ws_skip: "split_ws_acc [] (dropWhile py_isspace cs) = split_ws_acc [] cs"
  by (induction cs) simp_all

lemma collapse_ws_words: "split_ws_acc cur (collapse_ws s) = split_ws_acc cur s"
proof (induction s arbitrary: cur rule: collapse_ws.induct)
  case 1
  show ?case by simp
next
  case (2 c cs)
  have sp: "py_isspace 32" by (simp add: py_isspace_def)
  show ?case
  proof (cases "py_isspace c")
    case True
    with 2 sp show ?thesis by (simp add: split_ws_skip)
  next
    case False
    with 2 show ?thesis by simp
  qed
qed

lemma collapse_ws_spaces: "c \<in> set (collapse_ws s) \<Longrightarrow> py_isspace c \<Longrightarrow> c = 32"
proof (induction s rule: collapse_ws.induct)
  case 1
  then show ?case by simp
next
  case (2 d ds)
  then show ?case by (auto split: if_splits)
qed

lemma collapse_ws_single: "successively no_ws_pair (collapse_ws s)"
proof (induction s rule: collapse_ws.induct)
  case 1
  show ?case by simp
next
  case (2 c cs)
  show ?case
  proof (cases "py_isspace c")
    case False
    with 2 show ?thesis by (simp add: successively_Cons no_ws_pair_def)
  next
    case True
    show ?thesis
    proof (cases "dropWhile py_isspace cs")
      case Nil
      from True have "collapse_ws (c # cs) = 32 # collapse_ws (dropWhile py_isspace cs)" by simp
      also have "\<dots> = [32]" unfolding Nil by simp
      finally show ?thesis by simp
    next
      case (Cons x xs)
      then have x: "\<not> py_isspace x" using hd_dropWhile [of py_isspace cs] by auto
      from 2(1) [OF True] have ih: "successively no_ws_pair (collapse_ws (x # xs))"
        unfolding Cons .
      from True have "collapse_ws (c # cs) = 32 # collapse_ws (dropWhile py_isspace cs)" by simp
      also have "\<dots> = 32 # x # collapse_ws xs" unfolding Cons using x by simp
      finally have eq: "collapse_ws (c # cs) = 32 # x # collapse_ws xs" .
      from ih x have "successively no_ws_pair (x # collapse_ws xs)" by simp
      with x show ?thesis unfolding eq by (simp add: no_ws_pair_def)
    qed
  qed
qed

lemma mixed_split: "py_split_sep [9745] mixed_line = [[], mixed_tail]"
  by (simp add: mixed_line_def mixed_tail_def str_defs)

lemma mixed_clean: "clean_option mixed_tail = U ''Yes''"
  by (simp add: mixed_tail_def str_defs cb_defs)

lemma mixed_checkboxes: "line_checkboxes mixed_line = [cand_no, cand_yes]"
  by (simp add: mixed_line_def mixed_tail_def cand_no_def cand_yes_def str_defs cb_defs)

lemma yes_no_fields: "extract_form_fields_from_markdown yes_no_line = [cand_yes, cand_no]"
  by (simp add: yes_no_line_def cand_no_def cand_yes_def str_defs cb_defs md_defs)

lemma consent_clean: "clean_option (U '' I have read and agree to the terms on page two'') = consent_option"
  by (simp add: consent_option_def str_defs cb_defs)

lemma consent_fields:
  "extract_form_fields_from_markdown consent_line = [\<lparr>fi_type = Checkbox, fi_label = consent_label\<rparr>]"
  by (simp add: consent_line_def consent_label_def str_defs cb_defs md_defs)

text \<open>
  C6: for every line of the markup (a piece between bars and line breaks, stripped,
  neither empty nor starting with three dashes) the checkbox extraction takes, for each
  glyph of the table that occurs in the line, the pieces of the line after its first piece
  when the line is split at that glyph (the pieces joined by the glyph give the line back
  and no piece contains the glyph). Each such piece is trimmed to the text before the
  next occurrence of any glyph: the option text is a prefix of the piece, either the whole
  piece or the part directly followed by a glyph, holding no glyph, stripped, with internal
  whitespace collapsed (the same words, every whitespace character a single space, no two
  in a row). The piece is kept as a Checkbox candidate exactly when the length of its
  option text is strictly between 1 and 60; the stored label is the option text cut to 30
  characters. The line \<^verbatim>\<open>\<box> Yes \<box> No\<close> (with the ballot box U+2610) gives exactly the
  two Checkbox candidates Yes and No.
\<close>

theorem checkbox_extraction:
  "line_fields l =
     (if py_strip l = [] \<or> prefix (U ''---'') (py_strip l) then []
      else line_checkboxes (py_strip l) @ line_labels (py_strip l))
   \<and> line_checkboxes line =
       concat (map (\<lambda>cb. if py_in cb line
                          then concat (map option_candidate (drop 1 (py_split_sep cb line)))
                          else [])
                   ALL_CB)
   \<and> (cb \<in> set ALL_CB \<longrightarrow>
         join_sep cb (py_split_sep cb line) = line
         \<and> (\<forall>p\<in>set (py_split_sep cb line). \<not> py_in cb p))
   \<and> (\<exists>p. prefix p part
          \<and> (p = part \<or> (\<exists>g\<in>set ALL_CB. prefix (p @ g) part))
          \<and> (\<forall>g\<in>set ALL_CB. \<not> py_in g (py_strip p))
          \<and> clean_option part = py_strip (collapse_ws (py_strip p)))
   \<and> py_split (collapse_ws s) = py_split s
   \<and> (\<forall>c\<in>set (collapse_ws s). py_isspace c \<longrightarrow> c = 32)
   \<and> successively no_ws_pair (collapse_ws s)
   \<and> option_candidate part =
       (if 1 < length (clean_option part) \<and> length (clean_option part) < 60
        then [\<lparr>fi_type = Checkbox, fi_label = take 30 (clean_option part)\<rparr>]
        else [])
   \<and> extract_form_fields_from_markdown yes_no_line = [cand_yes, cand_no]"
proof -
  have a: "line_fields l =
     (if py_strip l = [] \<or> prefix (U ''---'') (py_strip l) then []
      else line_checkboxes (py_strip l) @ line_labels (py_strip l))"
    by (simp add: line_fields_def Let_def)
  have b: "cb \<in> set ALL_CB \<longrightarrow>
         join_sep cb (py_split_sep cb line) = line
         \<and> (\<forall>p\<in>set (py_split_sep cb line). \<not> py_in cb p)"
  proof
    assume "cb \<in> set ALL_CB"
    with glyphs_nonempty have "cb \<noteq> []" by blast
    from py_split_sep_join [OF this, of line] show
      "join_sep cb (py_split_sep cb line) = line
         \<and> (\<forall>p\<in>set (py_split_sep cb line). \<not> py_in cb p)" by blast
  qed
  have c: "py_split (collapse_ws s) = py_split s"
    by (simp add: py_split_def collapse_ws_words)
  have d: "\<forall>c\<in>set (collapse_ws s). py_isspace c \<longrightarrow> c = 32"
    using collapse_ws_spaces by blast
  from a line_checkboxes_eq [of line] b clean_option_trim [of part] c d
    collapse_ws_single [of s] option_candidate_eq [of part] yes_no_fields
  show ?thesis by (intro conjI)
qed

theorem checkbox_extraction_witness:
  "[9745] \<in> set ALL_CB
   \<and> py_split_sep [9745] mixed_line = [[], mixed_tail]
   \<and> join_sep [9745] [[], mixed_tail] = mixed_line
   \<and> \<not> py_in [9745] mixed_tail
   \<and> clean_option mixed_tail = U ''Yes''
   \<and> option_candidate mixed_tail = [cand_yes]
   \<and> line_checkboxes mixed_line = [cand_no, cand_yes]
   \<and> py_split (collapse_ws (U ''a  b'')) = [U ''a'', U ''b'']
   \<and> extract_form_fields_from_markdown yes_no_line = [cand_yes, cand_no]"
proof -
  note inst = checkbox_extraction [of mixed_line mixed_line "[9745]" mixed_tail "U ''a  b''"]
  have m: "[9745] \<in> set ALL_CB"
    by (simp add: ALL_CB_def CHECKBOX_CHARS_def CHECKBOX_ENCODED_def)
  from inst m have j: "join_sep [9745] (py_split_sep [9745] mixed_line) = mixed_line"
    and f: "\<forall>p\<in>set (py_split_sep [9745] mixed_line). \<not> py_in [9745] p"
    by blast+
  from j have j': "join_sep [9745] [[], mixed_tail] = mixed_line" by (simp only: mixed_split)
  from f have f': "\<not> py_in [9745] mixed_tail" by (simp add: mixed_split)
  from inst have "option_candidate mixed_tail =
       (if 1 < length (clean_option mixed_tail) \<and> length (clean_option mixed_tail) < 60
        then [\<lparr>fi_type = Checkbox, fi_label = take 30 (clean_option mixed_tail)\<rparr>]
        else [])" by blast
  then have o: "option_candidate mixed_tail = [cand_yes]"
    by (simp add: mixed_clean cand_yes_def U_def)
  from inst have "py_split (collapse_ws (U ''a  b'')) = py_split (U ''a  b'')" by blast
  then have w: "py_split (collapse_ws (U ''a  b'')) = [U ''a'', U ''b'']"
    by (simp add: str_defs)
  from inst have y: "extract_form_fields_from_markdown yes_no_line = [cand_yes, cand_no]"
    by blast
  from m mixed_split j' f' mixed_clean o mixed_checkboxes w y show ?thesis by (intro conjI)
qed

text \<open>
  C10: every Checkbox candidate of the markdown field extractor has a label of at most
  30 characters. An option text passes the length filter with up to 59 characters, and
  the label stored for it is its first 30 characters, so that the position matcher, which
  receives the candidate's label, sees a longer option text by its 30-character prefix
  only.
\<close>

theorem checkbox_label_truncated:
  "(\<forall>c\<in>set (extract_form_fields_from_markdown markdown_text).
      fi_type c = Checkbox \<longrightarrow> length (fi_label c) \<le> 30)
   \<and> (1 < length (clean_option part) \<and> length (clean_option part) < 60 \<longrightarrow>
        option_candidate part = [\<lparr>fi_type = Checkbox, fi_label = take 30 (clean_option part)\<rparr>])
   \<and> (\<not> (1 < length (clean_option part) \<and> length (clean_option part) < 60) \<longrightarrow>
        option_candidate part = [])"
proof -
  have oc: "\<And>part c. c \<in> set (option_candidate part) \<Longrightarrow> length (fi_label c) \<le> 30"
    by (auto simp: option_candidate_def Let_def split: if_splits)
  have lc: "\<And>line c. c \<in> set (line_checkboxes line) \<Longrightarrow> length (fi_label c) \<le> 30"
    by (auto simp: line_checkboxes_def checkbox_options_def dest: oc split: if_splits)
  have ll: "\<And>line c. c \<in> set (line_labels line) \<Longrightarrow> fi_type c = Text"
    by (auto simp: line_labels_def label_candidate_def Let_def split: if_splits)
  have lf: "\<And>l c. c \<in> set (line_fields l) \<Longrightarrow> fi_type c = Checkbox \<Longrightarrow> length (fi_label c) \<le> 30"
    by (auto simp: line_fields_def Let_def dest: lc ll split: if_splits)
  have "\<forall>c\<in>set (extract_form_fields_from_markdown markdown_text).
      fi_type c = Checkbox \<longrightarrow> length (fi_label c) \<le> 30"
    by (auto simp: extract_form_fields_from_markdown_def dest: lf)
  then show ?thesis by (simp add: option_candidate_eq)
qed

theorem checkbox_label_truncated_witness:
  "length consent_option = 46
   \<and> clean_option (U '' I have read and agree to the terms on page two'') = consent_option
   \<and> option_candidate (U '' I have read and agree to the terms on page two'')
       = [\<lparr>fi_type = Checkbox, fi_label = consent_label\<rparr>]
   \<and> extract_form_fields_from_markdown consent_line = [\<lparr>fi_type = Checkbox, fi_label = consent_label\<rparr>]
   \<and> length consent_label = 30"
proof -
  note inst = checkbox_label_truncated [of consent_line "U '' I have read and agree to the terms on page two''"]
  have l: "length consent_option = 46" by (simp add: consent_option_def U_def)
  from inst have "1 < length (clean_option (U '' I have read and agree to the terms on page two''))
      \<and> length (clean_option (U '' I have read and agree to the terms on page two'')) < 60 \<longrightarrow>
        option_candidate (U '' I have read and agree to the terms on page two'')
          = [\<lparr>fi_type = Checkbox, fi_label = take 30 (clean_option (U '' I have read and agree to the terms on page two''))\<rparr>]"
    by blast
  then have o: "option_candidate (U '' I have read and agree to the terms on page two'')
       = [\<lparr>fi_type = Checkbox, fi_label = consent_label\<rparr>]"
    unfolding consent_clean by (simp add: consent_option_def consent_label_def U_def)
  from inst have "\<forall>c\<in>set (extract_form_fields_from_markdown consent_line).
      fi_type c = Checkbox \<longrightarrow> length (fi_label c) \<le> 30" by blast
  then have n: "length consent_label \<le> 30" by (simp add: consent_fields)
  have "length consent_label = 30" by (simp add: consent_label_def U_def)
  with l consent_clean o consent_fields show ?thesis by (intro conjI)
qed

subsection \<open>Native label locator\<close>

lemma greedy_rep_max:
  "k (acc @ takeWhile cls s) (dropWhile cls s) = Some r \<Longrightarrow> greedy_rep cls k acc s = Some r"
  by (induction s arbitrary: acc) auto

lemma greedy_rep_none:
  "(\<And>n. n \<le> length (takeWhile cls s) \<Longrightarrow> k (acc @ take n s) (drop n s) = None)
   \<Longrightarrow> greedy_rep cls k acc s = None"
proof (induction s arbitrary: acc)
  case Nil
  from Nil [of 0] show ?case by simp
next
  case (Cons c cs)
  from Cons.prems [of 0] have k0: "k acc (c # cs) = None" by simp
  show ?case
  proof (cases "cls c")
    case False
    with k0 show ?thesis by simp
  next
    case True
    have "greedy_rep cls k (acc @ [c]) cs = None"
    proof (rule Cons.IH)
      fix n assume "n \<le> length (takeWhile cls cs)"
      with True Cons.prems [of "Suc n"] show "k ((acc @ [c]) @ take n cs) (drop n cs) = None"
        by simp
    qed
    with True k0 show ?thesis by simp
  qed
qed

lemma rx_spaces:
  "rx_match [(py_isspace, GStar)] v = Some ([takeWhile py_isspace v], dropWhile py_isspace v)"
proof -
  have "rx_match [(py_isspace, GStar)] v =
      greedy_rep py_isspace (\<lambda>seg rest. Some ([seg], rest)) [] v"
    by (simp add: rx_item_match_def)
  also have "\<dots> = Some ([takeWhile py_isspace v], dropWhile py_isspace v)"
    by (rule greedy_rep_max) simp
  finally show ?thesis .
qed

lemma rx_colon:
  "rx_match [(\<lambda>c. c = 58, Once), (py_isspace, GStar)] r =
     (case r of [] \<Rightarrow> None
      | c # v \<Rightarrow> if c = 58 then Some ([[58], takeWhile py_isspace v], dropWhile py_isspace v)
                 else None)"
proof -
  have "rx_match [(\<lambda>c. c = 58, Once), (py_isspace, GStar)] r =
      rx_item_match (\<lambda>c. c = 58, Once)
        (\<lambda>seg rest. map_option (\<lambda>(segs, r). (seg # segs, r)) (rx_match [(py_isspace, GStar)] rest)) r"
    by (simp only: rx_match.simps)
  also have "\<dots> = (case r of [] \<Rightarrow> None
      | c # v \<Rightarrow> if c = 58 then Some ([[58], takeWhile py_isspace v], dropWhile py_isspace v)
                 else None)"
    unfolding rx_spaces by (simp add: rx_item_match_def split: list.splits)
  finally show ?thesis .
qed


lemma not_space_colon: "\<not> py_isspace 58"
  by (simp add: py_isspace_def)

lemma not_class_colon: "\<not> label_class 58"
  by (simp add: label_class_def py_isspace_def)

lemma space_class: "py_isspace c \<Longrightarrow> label_class c"
  by (simp add: label_class_def)

lemma rx_tail:
  "rx_match [(py_isspace, GStar), (\<lambda>c. c = 58, Once), (py_isspace, GStar)] t =
     (case dropWhile py_isspace t of [] \<Rightarrow> None
      | c # v \<Rightarrow> if c = 58
                 then Some ([takeWhile py_isspace t, [58], takeWhile py_isspace v],
                            dropWhile py_isspace v)
                 else None)"
proof -
  let ?k = "\<lambda>seg rest. map_option (\<lambda>(segs, r). (seg # segs, r))
              (rx_match [(\<lambda>c. c = 58, Once), (py_isspace, GStar)] rest)"
  have unf: "rx_match [(py_isspace, GStar), (\<lambda>c. c = 58, Once), (py_isspace, GStar)] t =
      greedy_rep py_isspace ?k [] t"
    by (simp only: rx_match.simps rx_item_match_def prod.case quant.case)
  show ?thesis
  proof (cases "\<exists>v. dropWhile py_isspace t = 58 # v")
    case True
    then obtain v where v: "dropWhile py_isspace t = 58 # v" by blast
    have "greedy_rep py_isspace ?k [] t =
        Some ([takeWhile py_isspace t, [58], takeWhile py_isspace v], dropWhile py_isspace v)"
      by (rule greedy_rep_max) (simp add: v rx_colon del: rx_match.simps)
    with unf v show ?thesis by simp
  next
    case False
    have "greedy_rep py_isspace ?k [] t = None"
    proof (rule greedy_rep_none)
      fix n assume n: "n \<le> length (takeWhile py_isspace t)"
      have "\<not> (\<exists>v. drop n t = 58 # v)"
      proof
        assume "\<exists>v. drop n t = 58 # v"
        then obtain v where v: "drop n t = 58 # v" by blast
        have t: "t = take n t @ 58 # v" using v by (metis append_take_drop_id)
        have "take n t = take n (takeWhile py_isspace t)"
          using n by (metis append_take_drop_id takeWhile_dropWhile_id take_append
              diff_is_0_eq take_0 append_Nil2)
        then have "\<forall>x\<in>set (take n t). py_isspace x"
          by (metis in_set_takeD set_takeWhileD)
        then have "dropWhile py_isspace (take n t @ 58 # v) = 58 # v"
          by (simp add: dropWhile_append2 not_space_colon)
        with t False show False by metis
      qed
      then show "?k ([] @ take n t) (drop n t) = None"
        by (simp add: rx_colon del: rx_match.simps split: list.splits)
    qed
    with unf False show ?thesis by (auto split: list.splits)
  qed
qed


lemma take_within_run:
  assumes "n \<le> length (takeWhile P t)"
  shows "\<forall>x\<in>set (take n t). P x"
proof -
  have "take n t = take n (takeWhile P t @ dropWhile P t)" by simp
  also have "\<dots> = take n (takeWhile P t)" using assms by (simp only: take_append) simp
  finally have "set (take n t) \<subseteq> set (takeWhile P t)" by (simp add: set_take_subset)
  then show ?thesis by (auto dest: set_takeWhileD)
qed

lemma run_end:
  assumes "\<forall>x\<in>set A. P x" and "\<not> P y"
  shows "dropWhile P (A @ y # v) = y # v" and "takeWhile P (A @ y # v) = A"
  using assms by (simp_all add: dropWhile_append2 takeWhile_append2)

lemma rest_shorter:
  "length (dropWhile py_isspace (drop 1 (dropWhile label_class cs))) < Suc (length cs)"
proof -
  have "length (dropWhile py_isspace (drop 1 (dropWhile label_class cs)))
          \<le> length (drop 1 (dropWhile label_class cs))"
    by (rule length_dropWhile_le)
  also have "\<dots> \<le> length (dropWhile label_class cs)" by simp
  also have "\<dots> \<le> length cs" by (rule length_dropWhile_le)
  finally show ?thesis by simp
qed

lemma take1_colon: "take 1 xs = [58] \<longleftrightarrow> (\<exists>v. xs = 58 # v)"
  by (cases xs) auto

lemma rx_label:
  "rx_match label_pattern s =
     (case s of [] \<Rightarrow> None
      | c # cs \<Rightarrow>
          if label_class c \<and> take 1 (dropWhile label_class cs) = [58]
          then Some ([c # takeWhile label_class cs, [], [58],
                      takeWhile py_isspace (drop 1 (dropWhile label_class cs))],
                     dropWhile py_isspace (drop 1 (dropWhile label_class cs)))
          else None)"
proof -
  let ?tail = "[(py_isspace, GStar), (\<lambda>c. c = 58, Once), (py_isspace, GStar)]"
  let ?k = "\<lambda>seg rest. map_option (\<lambda>(segs, r). (seg # segs, r)) (rx_match ?tail rest)"
  have unf: "rx_match label_pattern s =
      (case s of [] \<Rightarrow> None
       | c # cs \<Rightarrow> if label_class c then greedy_rep label_class ?k [c] cs else None)"
    unfolding label_pattern_def
    by (simp only: rx_match.simps(2) [of _ ?tail] rx_item_match_def prod.case quant.case)
  show ?thesis
  proof (cases s)
    case Nil
    with unf show ?thesis by simp
  next
    case (Cons c cs)
    show ?thesis
    proof (cases "label_class c")
      case False
      with unf Cons show ?thesis by simp
    next
      case True
      show ?thesis
      proof (cases "\<exists>v. dropWhile label_class cs = 58 # v")
        case ex: True
        then obtain v where v: "dropWhile label_class cs = 58 # v" by blast
        have "rx_match ?tail (58 # v) =
            Some ([[], [58], takeWhile py_isspace v], dropWhile py_isspace v)"
          unfolding rx_tail by (simp add: not_space_colon)
        then have "?k ([c] @ takeWhile label_class cs) (dropWhile label_class cs) =
            Some ([c # takeWhile label_class cs, [], [58], takeWhile py_isspace v],
                  dropWhile py_isspace v)"
          unfolding v by simp
        then have "greedy_rep label_class ?k [c] cs =
            Some ([c # takeWhile label_class cs, [], [58], takeWhile py_isspace v],
                  dropWhile py_isspace v)"
          by (rule greedy_rep_max)
        with unf Cons True v show ?thesis by simp
      next
        case nex: False
        have "greedy_rep label_class ?k [c] cs = None"
        proof (rule greedy_rep_none)
          fix n assume n: "n \<le> length (takeWhile label_class cs)"
          have "\<not> (\<exists>v. dropWhile py_isspace (drop n cs) = 58 # v)"
          proof
            assume "\<exists>v. dropWhile py_isspace (drop n cs) = 58 # v"
            then obtain v where v: "dropWhile py_isspace (drop n cs) = 58 # v" by blast
            have "drop n cs = takeWhile py_isspace (drop n cs) @ dropWhile py_isspace (drop n cs)"
              by simp
            then have d: "drop n cs = takeWhile py_isspace (drop n cs) @ 58 # v"
              unfolding v .
            have "cs = take n cs @ drop n cs" by simp
            then have cs: "cs = (take n cs @ takeWhile py_isspace (drop n cs)) @ 58 # v"
              using d by simp
            have "\<forall>x\<in>set (take n cs @ takeWhile py_isspace (drop n cs)). label_class x"
              using take_within_run [OF n] by (auto dest: set_takeWhileD intro: space_class)
            from run_end(1) [OF this not_class_colon, of v] cs
            have "dropWhile label_class cs = 58 # v" by simp
            with nex show False by blast
          qed
          then have "rx_match ?tail (drop n cs) = None"
            unfolding rx_tail by (auto split: list.splits)
          then show "?k ([c] @ take n cs) (drop n cs) = None" by simp
        qed
        moreover have "take 1 (dropWhile label_class cs) \<noteq> [58]"
          using nex take1_colon by blast
        ultimately show ?thesis using unf Cons True by (simp del: rx_match.simps)
      qed
    qed
  qed
qed

lemma findall_scan: "findall_labels s = scan_labels s"
proof (induction s rule: scan_labels.induct)
  case 1
  show ?case by (simp add: findall_labels_def rx_label)
next
  case (2 c cs)
  show ?case
  proof (cases "label_class c \<and> take 1 (dropWhile label_class cs) = [58]")
    case True
    from 2(1) [OF True] True show ?thesis
      by (simp add: findall_labels_def rx_label rest_shorter [unfolded One_nat_def])
  next
    case False
    then have m: "rx_match label_pattern (c # cs) = None" by (auto simp: rx_label)
    from False have s: "scan_labels (c # cs) = scan_labels cs" by auto
    from 2(2) [OF False] show ?thesis
      unfolding s by (simp add: findall_labels_def m)
  qed
qed

lemma scan_labels_sound:
  "label \<in> set (scan_labels s) \<Longrightarrow>
     label \<noteq> [] \<and> (\<forall>c\<in>set label. label_class c) \<and> sublist (label @ [58]) s"
proof (induction s rule: scan_labels.induct)
  case 1
  then show ?case by simp
next
  case (2 c cs)
  show ?case
  proof (cases "label_class c \<and> take 1 (dropWhile label_class cs) = [58]")
    case False
    from 2(3) False have "label \<in> set (scan_labels cs)" by (auto split: if_splits)
    from 2(2) [OF False this] have "label \<noteq> [] \<and> (\<forall>c\<in>set label. label_class c)
        \<and> sublist (label @ [58]) cs" .
    then show ?thesis by (simp add: sublist_Cons_right)
  next
    case True
    then obtain v where v: "dropWhile label_class cs = 58 # v" using take1_colon by blast
    have "cs = takeWhile label_class cs @ dropWhile label_class cs" by simp
    then have cs: "c # cs = (c # takeWhile label_class cs) @ [58] @ v" unfolding v by simp
    from 2(3) True have "label = c # takeWhile label_class cs
        \<or> label \<in> set (scan_labels (dropWhile py_isspace (drop 1 (dropWhile label_class cs))))"
      by simp
    then show ?thesis
    proof
      assume l: "label = c # takeWhile label_class cs"
      have "sublist (label @ [58]) ((label @ [58]) @ v)" by (rule sublist_append_rightI)
      with l cs have "sublist (label @ [58]) (c # cs)" by simp
      with l True show ?thesis by (auto dest: set_takeWhileD)
    next
      assume "label \<in> set (scan_labels (dropWhile py_isspace (drop 1 (dropWhile label_class cs))))"
      from 2(1) [OF True this] have ih: "label \<noteq> [] \<and> (\<forall>c\<in>set label. label_class c)"
        and sub: "sublist (label @ [58]) (dropWhile py_isspace (drop 1 (dropWhile label_class cs)))"
        by simp_all
      have "sublist (dropWhile py_isspace (drop 1 (dropWhile label_class cs)))
              (drop 1 (dropWhile label_class cs))" by (rule sublist_dropWhile)
      with sub have "sublist (label @ [58]) (drop 1 (dropWhile label_class cs))"
        by (rule sublist_order.order.trans)
      from this sublist_drop have "sublist (label @ [58]) (dropWhile label_class cs)"
        by (rule sublist_order.order.trans)
      from this sublist_dropWhile have "sublist (label @ [58]) cs"
        by (rule sublist_order.order.trans)
      with ih show ?thesis by (simp add: sublist_Cons_right)
    qed
  qed
qed

lemma find_first:
  "\<forall>r\<in>set pre. \<not> P r \<Longrightarrow> P li \<Longrightarrow> find P (pre @ li # post) = Some li"
  by (induction pre) simp_all

lemma digits_not_in_class: "48 \<le> c \<and> c \<le> 57 \<Longrightarrow> \<not> label_class c"
  by (auto simp: label_class_def py_isspace_def)

lemma digit_labels_code: "findall_labels (U ''Line 2:'') = []"
  by (simp add: label_defs str_defs)

lemma digit_labels_spec:
  "map (\<lambda>segs. segs ! 0) (rx_finditer digit_label_pattern (U ''Line 2:'')) = [U ''Line 2'']"
  by (simp add: digit_label_pattern_def digit_label_class_def label_class_def rx_item_match_def str_defs)

lemma narrow_page_labels:
  "find_label_fields narrow_page = [\<lparr>ftype = Text, frect = Rect 102 100 180 112\<rparr>]"
  by (simp add: find_label_fields_def get_page_text_blocks_def narrow_page_def
      label_fields_of_line_def line_text_def bare_line_def label_fields_of_label_def
      label_field_of_def label_defs str_defs Rect_def)

lemma label_page_search:
  "search_for label_page (py_strip (U ''Name'') @ U '':'') = [Rect 50 300 85 312] @ Rect 50 100 85 112 # []"
  by (simp add: label_page_def str_defs)

lemma scan_page_search: "search_for scan_page s = []"
  by (simp add: scan_page_def)

end
